theory Spec2Isabelle
  imports Main "HOL-Library.AList"
begin

section \<open>Strings and the JavaScript built-ins the analyzer relies on\<close>

text \<open>
  The analyzer (\<^verbatim>\<open>src/unnamed/part_004\<close>) is TypeScript on Node.js. Strings are
  modelled as \<^typ>\<open>string\<close>; a JavaScript \<^verbatim>\<open>Map\<close> that the code iterates is an
  association list in insertion order (\<^const>\<open>AList.update\<close> keeps the position of an
  existing key, as \<^verbatim>\<open>Map.prototype.set\<close> does); a \<^verbatim>\<open>Map\<close> or \<^verbatim>\<open>Set\<close> that is only
  queried is a HOL map or set.
\<close>

definition truthy :: "string option \<Rightarrow> bool" where
  \<comment> \<open>JavaScript truthiness of a value of type \<^verbatim>\<open>string | undefined\<close>.\<close>
  "truthy v = (case v of None \<Rightarrow> False | Some s \<Rightarrow> s \<noteq> [])"

definition startsWith :: "string \<Rightarrow> string \<Rightarrow> bool" where
  "startsWith s p = (take (length p) s = p)"

definition js_slice :: "string \<Rightarrow> int \<Rightarrow> int option \<Rightarrow> string" where
  \<comment> \<open>\<^verbatim>\<open>String.prototype.slice(start, end)\<close>: negative indices count from the end,
      \<^verbatim>\<open>undefined\<close> as end means the length.\<close>
  "js_slice s start end' =
     (let len = int (length s);
          from = (if start < 0 then max (len + start) 0 else min start len);
          to = (case end' of None \<Rightarrow> len
                | Some e \<Rightarrow> (if e < 0 then max (len + e) 0 else min e len))
      in if from < to then take (nat (to - from)) (drop (nat from) s) else [])"

subsection \<open>Node's \<^verbatim>\<open>path.posix\<close>\<close>

text \<open>
  \<^verbatim>\<open>path.posix.dirname\<close>, \<^verbatim>\<open>normalize\<close>, \<^verbatim>\<open>join\<close> and \<^verbatim>\<open>basename\<close> belong to the
  Node.js standard library, not to the repository. They are modelled after Node's
  documented behaviour: \<^verbatim>\<open>normalize\<close> drops empty and \<^verbatim>\<open>.\<close> segments, lets a
  \<^verbatim>\<open>..\<close> segment remove the segment before it (keeping it only in a relative path that
  has nothing left to remove), keeps a leading and a trailing slash, and returns \<^verbatim>\<open>.\<close>
  for an empty result; \<^verbatim>\<open>join\<close> joins its non-empty arguments with \<^verbatim>\<open>/\<close> and
  normalizes; \<^verbatim>\<open>dirname\<close> cuts the path at the last slash that follows a non-slash
  character, scanning from the end down to index 1.
\<close>

fun split_slash :: "string \<Rightarrow> string list" where
  "split_slash [] = [[]]"
| "split_slash (c # cs) =
     (if c = CHR ''/'' then [] # split_slash cs
      else (case split_slash cs of
              seg # rest \<Rightarrow> (c # seg) # rest
            | [] \<Rightarrow> [[c]]))"

fun join_slash :: "string list \<Rightarrow> string" where
  "join_slash [] = []"
| "join_slash [s] = s"
| "join_slash (s # t # rest) = s @ ''/'' @ join_slash (t # rest)"

fun normalize_segments :: "bool \<Rightarrow> string list \<Rightarrow> string list \<Rightarrow> string list" where
  \<comment> \<open>the accumulator holds the kept segments, last one first\<close>
  "normalize_segments allowAboveRoot acc [] = rev acc"
| "normalize_segments allowAboveRoot acc (seg # segs) =
     (if seg = [] \<or> seg = ''.'' then normalize_segments allowAboveRoot acc segs
      else if seg = ''..'' then
        (case acc of
           prev # kept \<Rightarrow>
             (if prev = ''..''
              then normalize_segments allowAboveRoot (''..'' # acc) segs
              else normalize_segments allowAboveRoot kept segs)
         | [] \<Rightarrow>
             (if allowAboveRoot
              then normalize_segments allowAboveRoot [''..''] segs
              else normalize_segments allowAboveRoot [] segs))
      else normalize_segments allowAboveRoot (seg # acc) segs)"

definition posix_normalize :: "string \<Rightarrow> string" where
  "posix_normalize p =
     (if p = [] then ''.''
      else
        (let isAbsolute = (hd p = CHR ''/'');
             trailingSeparator = (last p = CHR ''/'');
             res = join_slash (normalize_segments (\<not> isAbsolute) [] (split_slash p))
         in if res = [] then (if isAbsolute then ''/'' else if trailingSeparator then ''./'' else ''.'')
            else (if isAbsolute then ''/'' else []) @ res @ (if trailingSeparator then ''/'' else [])))"

definition posix_join :: "string list \<Rightarrow> string" where
  "posix_join args =
     (case filter (\<lambda>a. a \<noteq> []) args of
        [] \<Rightarrow> ''.''
      | parts \<Rightarrow> posix_normalize (join_slash parts))"

fun dirname_scan :: "string \<Rightarrow> nat \<Rightarrow> bool \<Rightarrow> nat option" where
  \<comment> \<open>the loop \<^verbatim>\<open>for (i = path.length - 1; i >= 1; --i)\<close> of \<^verbatim>\<open>dirname\<close>; the result is \<^verbatim>\<open>end\<close>\<close>
  "dirname_scan p 0 matchedSlash = None"
| "dirname_scan p (Suc j) matchedSlash =
     (if p ! Suc j = CHR ''/''
      then (if \<not> matchedSlash then Some (Suc j) else dirname_scan p j matchedSlash)
      else dirname_scan p j False)"

definition posix_dirname :: "string \<Rightarrow> string" where
  "posix_dirname p =
     (if p = [] then ''.''
      else
        (let hasRoot = (hd p = CHR ''/'') in
         case dirname_scan p (length p - 1) True of
           None \<Rightarrow> (if hasRoot then ''/'' else ''.'')
         | Some end' \<Rightarrow> (if hasRoot \<and> end' = 1 then ''//'' else take end' p)))"

definition posix_basename :: "string \<Rightarrow> string" where
  \<comment> \<open>the last segment of the path, trailing slashes ignored\<close>
  "posix_basename p =
     rev (takeWhile (\<lambda>c. c \<noteq> CHR ''/'') (dropWhile (\<lambda>c. c = CHR ''/'') (rev p)))"

section \<open>The module resolver (\<^verbatim>\<open>createModuleResolver\<close>)\<close>

definition SUPPORTED_EXTENSIONS :: "string list" where
  "SUPPORTED_EXTENSIONS = [''.ts'', ''.tsx'', ''.js'', ''.jsx'', ''.mjs'', ''.cjs'']"

definition IMPORT_EXTENSIONS :: "string list" where
  "IMPORT_EXTENSIONS = [''.ts'', ''.tsx'', ''.js'', ''.jsx'', ''.mjs'', ''.cjs'', ''.json'']"

definition INDEX_FILES :: "string list" where
  "INDEX_FILES = map (\<lambda>ext. ''/index'' @ ext) IMPORT_EXTENSIONS"

record TsconfigPathsEntry =
  tp_prefix :: string
  tp_suffix :: string
  tp_targets :: "string list"

type_synonym candidateCache = "string \<rightharpoonup> string option"

definition normBase_of :: "string \<Rightarrow> string" where
  \<comment> \<open>\<^verbatim>\<open>base.replace(/\\/g, '/')\<close>\<close>
  "normBase_of base = map (\<lambda>c. if c = CHR 0x5C then CHR ''/'' else c) base"

definition candidates :: "string \<Rightarrow> string list" where
  "candidates normBase =
     normBase # map (\<lambda>ext. normBase @ ext) IMPORT_EXTENSIONS
       @ map (\<lambda>index. normBase @ index) INDEX_FILES"

definition tryCandidates ::
  "string set \<Rightarrow> candidateCache \<Rightarrow> string \<Rightarrow> string option \<times> candidateCache" where
  "tryCandidates fileSet cache base =
     (let normBase = normBase_of base in
      case cache normBase of
        Some cached \<Rightarrow> (cached, cache)
      | None \<Rightarrow>
          (let found = find (\<lambda>candidate. candidate \<in> fileSet) (candidates normBase)
           in (found, cache(normBase \<mapsto> found))))"

fun try_targets ::
  "string set \<Rightarrow> candidateCache \<Rightarrow> string \<Rightarrow> string list \<Rightarrow> string option \<times> candidateCache" where
  \<comment> \<open>the inner loop \<^verbatim>\<open>for (const target of entry.targets)\<close>\<close>
  "try_targets fileSet cache remainder [] = (None, cache)"
| "try_targets fileSet cache remainder (target # targets) =
     (case tryCandidates fileSet cache (posix_normalize (posix_join [target, remainder])) of
        (resolved, cache') \<Rightarrow>
          (if truthy resolved then (resolved, cache')
           else try_targets fileSet cache' remainder targets))"

fun try_paths ::
  "string set \<Rightarrow> candidateCache \<Rightarrow> string \<Rightarrow> TsconfigPathsEntry list
     \<Rightarrow> string option \<times> candidateCache" where
  \<comment> \<open>the loop \<^verbatim>\<open>for (const entry of paths)\<close>\<close>
  "try_paths fileSet cache specifier [] = (None, cache)"
| "try_paths fileSet cache specifier (entry # entries) =
     (if \<not> startsWith specifier (tp_prefix entry) then try_paths fileSet cache specifier entries
      else
        (let remainder =
               js_slice specifier (int (length (tp_prefix entry)))
                 (if length (tp_prefix entry) = length specifier then None
                  else Some (int (length specifier) - int (length (tp_suffix entry))))
         in case try_targets fileSet cache remainder (tp_targets entry) of
              (resolved, cache') \<Rightarrow>
                (if truthy resolved then (resolved, cache')
                 else try_paths fileSet cache' specifier entries)))"

definition resolver ::
  "string set \<Rightarrow> TsconfigPathsEntry list \<Rightarrow> candidateCache \<Rightarrow> string \<Rightarrow> string
     \<Rightarrow> string option \<times> candidateCache" where
  "resolver fileSet paths cache fromPath specifier =
     (if specifier = [] then (None, cache)
      else
        (let fromDir = posix_dirname fromPath in
         if startsWith specifier ''.''
         then tryCandidates fileSet cache (posix_normalize (posix_join [fromDir, specifier]))
         else
           (case try_paths fileSet cache specifier paths of
              (aliased, cache1) \<Rightarrow>
                (if truthy aliased then (aliased, cache1)
                 else
                   (case tryCandidates fileSet cache1 (posix_join [''.'', specifier]) of
                      (absoluteCandidate, cache2) \<Rightarrow>
                        (if truthy absoluteCandidate then (absoluteCandidate, cache2)
                         else
                           (case tryCandidates fileSet cache2 (posix_join [''src'', specifier]) of
                              (srcCandidate, cache3) \<Rightarrow>
                                (if truthy srcCandidate then (srcCandidate, cache3)
                                 else (None, cache3)))))))))"

section \<open>Per-file extraction (\<^verbatim>\<open>analyzeFile\<close>)\<close>

subsection \<open>Data model\<close>

datatype spec_type = T_named | T_default | T_namespace

record ImportSpecifierBinding =
  isb_local :: string
  isb_imported :: string
  isb_type :: spec_type
  isb_resolved :: "string option"

datatype import_kind = K_es | K_require | K_dynamic

record ImportBinding =
  ib_source :: string
  ib_resolved :: "string option"
  ib_kind :: import_kind
  ib_specifiers :: "ImportSpecifierBinding list"

datatype function_kind = F_function | F_arrow | F_method | F_class | F_anonymous

type_synonym loc = "(nat \<times> nat) \<times> (nat \<times> nat)"

record FunctionInfo =
  fn_id :: string
  fn_name :: string
  fn_filePath :: string
  fn_kind :: function_kind
  fn_loc :: "loc option"
  fn_exportName :: "string option"
  fn_isExported :: bool
  fn_include :: bool

record CallBinding =
  cb_local :: string
  cb_imported :: string
  cb_source :: string
  cb_callerId :: string
  cb_resolved :: "string option"

text \<open>
  \<^verbatim>\<open>FileAnalysis\<close> without its \<^verbatim>\<open>preview\<close> and \<^verbatim>\<open>size\<close> fields: they are copied
  into the digest sent to the language model and read nowhere else.
\<close>

record FileAnalysis =
  fa_path :: string
  fa_imports :: "ImportBinding list"
  fa_functions :: "FunctionInfo list"
  fa_calls :: "CallBinding list"

subsection \<open>What the visitors read from Babel\<close>

text \<open>
  \<^verbatim>\<open>parse\<close> and \<^verbatim>\<open>traverse\<close> are Babel's. The model takes the traversal as the
  sequence of visitor invocations, in the order Babel makes them (a node is entered
  before its children), each with the facts the visitor reads from the node, its
  ancestors and Babel's scope analysis. An AST node that the code uses as a \<^verbatim>\<open>WeakMap\<close>
  key carries a number that identifies it.
\<close>

datatype node_type =
    FunctionDeclaration | FunctionExpression | ArrowFunctionExpression
  | ClassMethod | ObjectMethod | ClassPrivateMethod | ClassDeclaration | OtherNode

datatype parent_node =
    VariableDeclarator "string option"
      \<comment> \<open>the declarator's \<^verbatim>\<open>id\<close> name when it is an identifier\<close>
  | AssignmentExpression "string option"
      \<comment> \<open>the name of \<^verbatim>\<open>left\<close> when it is an identifier\<close>
  | OtherParent

record fn_node =
  n_id :: nat
  n_type :: node_type
  n_name :: "string option"  \<comment> \<open>\<^verbatim>\<open>node.id?.name\<close>\<close>
  n_parent :: parent_node
  n_loc :: "loc option"

datatype import_specifier_node =
    ImportSpecifier string "string option"
      \<comment> \<open>local name; the imported name when \<^verbatim>\<open>imported\<close> is an identifier\<close>
  | ImportDefaultSpecifier string
  | ImportNamespaceSpecifier string

datatype binding_kind =
  BK_var | BK_let | BK_const | BK_module | BK_hoisted | BK_param | BK_local | BK_unknown

datatype scope_binding =
    NoBinding
  | Binding binding_kind "string option"
      \<comment> \<open>the binding's kind; the source of the import declaration when the parent of the
          binding's path is one\<close>

datatype export_parent = NoExportParent | ExportNamedParent | ExportDefaultParent

datatype export_decl =
    D_none
  | D_node fn_node
  | D_variable "(string option \<times> fn_node option) list"
      \<comment> \<open>per declarator: the \<^verbatim>\<open>id\<close> name when an identifier, and \<^verbatim>\<open>init\<close>\<close>
  | D_identifier "nat option"
      \<comment> \<open>the node of the identifier's binding path, when the scope has one\<close>
  | D_other

datatype visit =
    V_ImportDeclaration "import_specifier_node list" string
  | V_CallExpression "string option" scope_binding "fn_node option"
      \<comment> \<open>the callee's name when it is an identifier, \<^verbatim>\<open>scope.getBinding\<close> of it,
          \<^verbatim>\<open>getFunctionParent()\<close>\<close>
  | V_FunctionDeclaration fn_node bool
      \<comment> \<open>the flag: the parent is an \<^verbatim>\<open>ExportNamedDeclaration\<close>\<close>
  | V_ArrowFunctionExpression fn_node export_parent
      \<comment> \<open>the nearest ancestor that is a named or default export declaration\<close>
  | V_FunctionExpression fn_node bool
      \<comment> \<open>the flag: some ancestor is an \<^verbatim>\<open>ExportDefaultDeclaration\<close>\<close>
  | V_ClassMethod "string option" fn_node "string option"
      \<comment> \<open>the key's name when an identifier; the name of the enclosing class declaration
          when it has one and its parent is an \<^verbatim>\<open>ExportNamedDeclaration\<close>\<close>
  | V_ExportNamedDeclaration export_decl
  | V_ExportDefaultDeclaration export_decl

subsection \<open>Name and kind inference\<close>

definition name_from_parent :: "parent_node \<Rightarrow> string option" where
  "name_from_parent p =
     (case p of VariableDeclarator n \<Rightarrow> n | AssignmentExpression n \<Rightarrow> n | OtherParent \<Rightarrow> None)"

definition inferArrowFunctionName :: "fn_node \<Rightarrow> string option" where
  "inferArrowFunctionName node = name_from_parent (n_parent node)"

definition inferFunctionName :: "fn_node \<Rightarrow> string option" where
  "inferFunctionName node =
     (if n_type node = FunctionDeclaration \<and> n_name node \<noteq> None then n_name node
      else if n_type node = FunctionExpression \<and> n_name node \<noteq> None then n_name node
      else name_from_parent (n_parent node))"

definition inferFunctionKind :: "fn_node \<Rightarrow> function_kind" where
  "inferFunctionKind node =
     (if n_type node = ArrowFunctionExpression then F_arrow
      else if n_type node = ClassMethod \<or> n_type node = ObjectMethod then F_method
      else if n_type node = ClassDeclaration then F_class
      else F_function)"

subsection \<open>The traversal state and its helpers\<close>

fun string_of_nat :: "nat \<Rightarrow> string" where
  "string_of_nat n =
     (if n < 10 then [char_of (48 + n)]
      else string_of_nat (n div 10) @ [char_of (48 + n mod 10)])"

declare string_of_nat.simps [simp del]

text \<open>
  A \<^verbatim>\<open>FunctionInfo\<close> object is shared between the \<^verbatim>\<open>functions\<close> array, the
  \<^verbatim>\<open>functionNodeLookup\<close> and \<^verbatim>\<open>moduleInvoker\<close>, and is mutated through each of them.
  The array only grows, so a reference to an object is its index in the array.
\<close>

record analyze_state =
  as_imports :: "ImportBinding list"
  as_functions :: "FunctionInfo list"
  as_calls :: "CallBinding list"
  as_importSpecifierLookup :: "string \<rightharpoonup> ImportSpecifierBinding"
  as_functionNodeLookup :: "nat \<rightharpoonup> nat"
  as_moduleInvoker :: "nat option"
  as_functionCounter :: nat

definition update_at :: "nat \<Rightarrow> ('a \<Rightarrow> 'a) \<Rightarrow> 'a list \<Rightarrow> 'a list" where
  \<comment> \<open>a mutation of the object at an index of an array\<close>
  "update_at i f xs = (if i < length xs then xs[i := f (xs ! i)] else xs)"

definition ensureModuleInvoker :: "string \<Rightarrow> analyze_state \<Rightarrow> nat \<times> analyze_state" where
  "ensureModuleInvoker relPath st =
     (case as_moduleInvoker st of
        Some i \<Rightarrow> (i, st)
      | None \<Rightarrow>
          (let info = \<lparr>fn_id = relPath @ ''::(module)'', fn_name = ''(module)'',
                       fn_filePath = relPath, fn_kind = F_anonymous, fn_loc = None,
                       fn_exportName = None, fn_isExported = False, fn_include = True\<rparr>
           in (length (as_functions st),
               st\<lparr>as_functions := as_functions st @ [info],
                  as_moduleInvoker := Some (length (as_functions st))\<rparr>)))"

definition registerFunction ::
  "string \<Rightarrow> nat \<Rightarrow> string \<Rightarrow> function_kind \<Rightarrow> string option \<Rightarrow> bool \<Rightarrow> loc option
     \<Rightarrow> analyze_state \<Rightarrow> nat \<times> analyze_state" where
  "registerFunction relPath node name kind exportName isExported loc st =
     (let idBase = (case exportName of Some e \<Rightarrow> e | None \<Rightarrow> name);
          c0 = as_functionCounter st;
          idTail = (if idBase \<noteq> [] then idBase else ''fn_'' @ string_of_nat c0);
          c1 = (if idBase \<noteq> [] then c0 else Suc c0);
          named = (name \<noteq> [] \<or> truthy exportName);
          name' = (if name \<noteq> [] then name
                   else (case exportName of
                           Some e \<Rightarrow> (if e \<noteq> [] then e else ''anonymous_'' @ string_of_nat c1)
                         | None \<Rightarrow> ''anonymous_'' @ string_of_nat c1));
          c2 = (if named then c1 else Suc c1);
          info = \<lparr>fn_id = relPath @ ''::'' @ idTail, fn_name = name', fn_filePath = relPath,
                  fn_kind = kind, fn_loc = loc, fn_exportName = exportName,
                  fn_isExported = isExported, fn_include = isExported\<rparr>
      in (length (as_functions st),
          st\<lparr>as_functions := as_functions st @ [info],
             as_functionNodeLookup := (as_functionNodeLookup st)(node \<mapsto> length (as_functions st)),
             as_functionCounter := c2\<rparr>))"

definition markExport :: "nat option \<Rightarrow> string \<Rightarrow> analyze_state \<Rightarrow> analyze_state" where
  "markExport info exportName st =
     (case info of
        None \<Rightarrow> st
      | Some i \<Rightarrow>
          st\<lparr>as_functions :=
               update_at i (\<lambda>f. f\<lparr>fn_isExported := True, fn_exportName := Some exportName,
                                  fn_include := True\<rparr>) (as_functions st)\<rparr>)"

definition lookup_or_register ::
  "string \<Rightarrow> fn_node \<Rightarrow> string \<Rightarrow> function_kind \<Rightarrow> string option \<Rightarrow> bool
     \<Rightarrow> analyze_state \<Rightarrow> nat \<times> analyze_state" where
  \<comment> \<open>\<^verbatim>\<open>functionNodeLookup.get(node) ?? registerFunction(node, name, kind, exportName, isExported, node.loc)\<close>\<close>
  "lookup_or_register relPath node name kind exportName isExported st =
     (case as_functionNodeLookup st (n_id node) of
        Some i \<Rightarrow> (i, st)
      | None \<Rightarrow> registerFunction relPath (n_id node) name kind exportName isExported (n_loc node) st)"

subsection \<open>The visitors\<close>

fun import_specifier_record :: "import_specifier_node \<Rightarrow> ImportSpecifierBinding" where
  "import_specifier_record (ImportSpecifier local imported) =
     \<lparr>isb_local = local,
      isb_imported = (case imported of Some n \<Rightarrow> n | None \<Rightarrow> ''default''),
      isb_type = T_named, isb_resolved = None\<rparr>"
| "import_specifier_record (ImportDefaultSpecifier local) =
     \<lparr>isb_local = local, isb_imported = ''default'', isb_type = T_default, isb_resolved = None\<rparr>"
| "import_specifier_record (ImportNamespaceSpecifier local) =
     \<lparr>isb_local = local, isb_imported = ''*'', isb_type = T_namespace, isb_resolved = None\<rparr>"

definition visit_ImportDeclaration ::
  "import_specifier_node list \<Rightarrow> string \<Rightarrow> analyze_state \<Rightarrow> analyze_state" where
  "visit_ImportDeclaration specifierNodes source st =
     (let specifiers = map import_specifier_record specifierNodes
      in st\<lparr>as_imports := as_imports st
                @ [\<lparr>ib_source = source, ib_resolved = None, ib_kind = K_es,
                    ib_specifiers = specifiers\<rparr>],
            as_importSpecifierLookup :=
              fold (\<lambda>record' m. m(isb_local record' \<mapsto> record')) specifiers
                (as_importSpecifierLookup st)\<rparr>)"

definition call_caller :: "string \<Rightarrow> fn_node option \<Rightarrow> analyze_state \<Rightarrow> string \<times> analyze_state" where
  \<comment> \<open>the caller of a call expression: its id, and the state after registering it\<close>
  "call_caller relPath funcParent st =
     (case funcParent of
        Some fp \<Rightarrow>
          (case (case as_functionNodeLookup st (n_id fp) of
                   Some i \<Rightarrow> (i, st)
                 | None \<Rightarrow>
                     (case inferFunctionName fp of
                        Some name \<Rightarrow>
                          registerFunction relPath (n_id fp) name (inferFunctionKind fp) None False
                            (n_loc fp) st
                      | None \<Rightarrow>
                          registerFunction relPath (n_id fp)
                            (''anonymous_'' @ string_of_nat (as_functionCounter st))
                            (inferFunctionKind fp) None False (n_loc fp)
                            (st\<lparr>as_functionCounter := Suc (as_functionCounter st)\<rparr>))) of
             (i, st1) \<Rightarrow>
               (let st2 = st1\<lparr>as_functions :=
                               update_at i (\<lambda>f. f\<lparr>fn_include := True\<rparr>) (as_functions st1)\<rparr>
                in (fn_id (as_functions st2 ! i), st2)))
      | None \<Rightarrow>
          (case ensureModuleInvoker relPath st of
             (i, st1) \<Rightarrow> (fn_id (as_functions st1 ! i), st1)))"

definition visit_CallExpression ::
  "string \<Rightarrow> string option \<Rightarrow> scope_binding \<Rightarrow> fn_node option \<Rightarrow> analyze_state \<Rightarrow> analyze_state" where
  "visit_CallExpression relPath callee binding funcParent st =
     (case callee of
        None \<Rightarrow> st
      | Some calleeName \<Rightarrow>
          (case binding of
             NoBinding \<Rightarrow> st
           | Binding kind importParentSource \<Rightarrow>
               (if kind \<noteq> BK_module then st
                else
                  (case as_importSpecifierLookup st calleeName of
                     None \<Rightarrow> st
                   | Some specifier \<Rightarrow>
                       (if isb_type specifier = T_namespace then st
                        else
                          (let importSource =
                                 (case importParentSource of Some s \<Rightarrow> s | None \<Rightarrow> [])
                           in case call_caller relPath funcParent st of
                                (callerId, st') \<Rightarrow>
                                  st'\<lparr>as_calls := as_calls st'
                                        @ [\<lparr>cb_local = isb_local specifier,
                                            cb_imported = isb_imported specifier,
                                            cb_source = importSource,
                                            cb_callerId = callerId,
                                            cb_resolved = None\<rparr>]\<rparr>))))))"

definition visit_FunctionDeclaration :: "string \<Rightarrow> fn_node \<Rightarrow> bool \<Rightarrow> analyze_state \<Rightarrow> analyze_state" where
  "visit_FunctionDeclaration relPath node parentIsExportNamed st =
     (case n_name node of
        None \<Rightarrow> st
      | Some name \<Rightarrow>
          (case registerFunction relPath (n_id node) name F_function None parentIsExportNamed
                  (n_loc node) st of
             (info, st1) \<Rightarrow>
               (if parentIsExportNamed then markExport (Some info) name st1 else st1)))"

definition visit_ArrowFunctionExpression ::
  "string \<Rightarrow> fn_node \<Rightarrow> export_parent \<Rightarrow> analyze_state \<Rightarrow> analyze_state" where
  "visit_ArrowFunctionExpression relPath node parentExport st =
     (let name = inferArrowFunctionName node in
      case registerFunction relPath (n_id node) (case name of Some n \<Rightarrow> n | None \<Rightarrow> []) F_arrow
             (if parentExport = ExportDefaultParent then Some ''default'' else None)
             (parentExport \<noteq> NoExportParent) (n_loc node) st of
        (info, st1) \<Rightarrow>
          (let st2 = (if parentExport = ExportNamedParent \<and> truthy name
                      then markExport (Some info) (case name of Some n \<Rightarrow> n | None \<Rightarrow> []) st1
                      else st1)
           in if parentExport = ExportDefaultParent then markExport (Some info) ''default'' st2
              else st2))"

definition visit_FunctionExpression :: "string \<Rightarrow> fn_node \<Rightarrow> bool \<Rightarrow> analyze_state \<Rightarrow> analyze_state" where
  "visit_FunctionExpression relPath node parentExport st =
     (let name = inferFunctionName node in
      case registerFunction relPath (n_id node) (case name of Some n \<Rightarrow> n | None \<Rightarrow> []) F_function
             (if parentExport then Some ''default'' else None) parentExport (n_loc node) st of
        (info, st1) \<Rightarrow> (if parentExport then markExport (Some info) ''default'' st1 else st1))"

definition visit_ClassMethod ::
  "string \<Rightarrow> string option \<Rightarrow> fn_node \<Rightarrow> string option \<Rightarrow> analyze_state \<Rightarrow> analyze_state" where
  "visit_ClassMethod relPath key node exportedClass st =
     (case key of
        None \<Rightarrow> st
      | Some keyName \<Rightarrow>
          (case registerFunction relPath (n_id node) keyName F_method None False (n_loc node) st of
             (info, st1) \<Rightarrow>
               (case exportedClass of
                  None \<Rightarrow> st1
                | Some className \<Rightarrow>
                    st1\<lparr>as_functions :=
                          update_at info
                            (\<lambda>f. f\<lparr>fn_exportName := Some (className @ ''.'' @ keyName),
                                   fn_include := True\<rparr>) (as_functions st1)\<rparr>)))"

fun export_declarators ::
  "string \<Rightarrow> (string option \<times> fn_node option) list \<Rightarrow> analyze_state \<Rightarrow> analyze_state" where
  \<comment> \<open>the loop \<^verbatim>\<open>for (const decl of declaration.declarations)\<close>\<close>
  "export_declarators relPath [] st = st"
| "export_declarators relPath ((Some name, Some init) # decls) st =
     (if n_type init = FunctionExpression \<or> n_type init = ArrowFunctionExpression
      then
        (case lookup_or_register relPath init name
                (if n_type init = ArrowFunctionExpression then F_arrow else F_function)
                (Some name) True st of
           (info, st1) \<Rightarrow> export_declarators relPath decls (markExport (Some info) name st1))
      else export_declarators relPath decls st)"
| "export_declarators relPath (_ # decls) st = export_declarators relPath decls st"

definition visit_ExportNamedDeclaration :: "string \<Rightarrow> export_decl \<Rightarrow> analyze_state \<Rightarrow> analyze_state" where
  "visit_ExportNamedDeclaration relPath decl st =
     (case decl of
        D_node node \<Rightarrow>
          (case n_name node of
             None \<Rightarrow> st
           | Some name \<Rightarrow>
               (if n_type node = FunctionDeclaration
                then
                  (case lookup_or_register relPath node name F_function (Some name) True st of
                     (info, st1) \<Rightarrow> markExport (Some info) name st1)
                else if n_type node = ClassDeclaration
                then
                  (case registerFunction relPath (n_id node) name F_class (Some name) True
                          (n_loc node) st of
                     (info, st1) \<Rightarrow> markExport (Some info) name st1)
                else st))
      | D_variable decls \<Rightarrow> export_declarators relPath decls st
      | _ \<Rightarrow> st)"

definition visit_ExportDefaultDeclaration :: "string \<Rightarrow> export_decl \<Rightarrow> analyze_state \<Rightarrow> analyze_state" where
  "visit_ExportDefaultDeclaration relPath decl st =
     (case decl of
        D_node node \<Rightarrow>
          (if n_type node = FunctionDeclaration
           then
             (case lookup_or_register relPath node
                     (case n_name node of Some n \<Rightarrow> n | None \<Rightarrow> ''default'')
                     F_function (Some ''default'') True st of
                (info, st1) \<Rightarrow> markExport (Some info) ''default'' st1)
           else if n_type node = ArrowFunctionExpression \<or> n_type node = FunctionExpression
           then
             (case lookup_or_register relPath node ''default''
                     (if n_type node = ArrowFunctionExpression then F_arrow else F_function)
                     (Some ''default'') True st of
                (info, st1) \<Rightarrow> markExport (Some info) ''default'' st1)
           else st)
      | D_identifier bindingNode \<Rightarrow>
          markExport
            (case bindingNode of None \<Rightarrow> None | Some n \<Rightarrow> as_functionNodeLookup st n)
            ''default'' st
      | _ \<Rightarrow> st)"

fun visitor :: "string \<Rightarrow> visit \<Rightarrow> analyze_state \<Rightarrow> analyze_state" where
  "visitor relPath (V_ImportDeclaration specifierNodes source) st =
     visit_ImportDeclaration specifierNodes source st"
| "visitor relPath (V_CallExpression callee binding funcParent) st =
     visit_CallExpression relPath callee binding funcParent st"
| "visitor relPath (V_FunctionDeclaration node parentIsExportNamed) st =
     visit_FunctionDeclaration relPath node parentIsExportNamed st"
| "visitor relPath (V_ArrowFunctionExpression node parentExport) st =
     visit_ArrowFunctionExpression relPath node parentExport st"
| "visitor relPath (V_FunctionExpression node parentExport) st =
     visit_FunctionExpression relPath node parentExport st"
| "visitor relPath (V_ClassMethod key node exportedClass) st =
     visit_ClassMethod relPath key node exportedClass st"
| "visitor relPath (V_ExportNamedDeclaration decl) st =
     visit_ExportNamedDeclaration relPath decl st"
| "visitor relPath (V_ExportDefaultDeclaration decl) st =
     visit_ExportDefaultDeclaration relPath decl st"

definition initial_state :: analyze_state where
  "initial_state =
     \<lparr>as_imports = [], as_functions = [], as_calls = [],
      as_importSpecifierLookup = Map.empty, as_functionNodeLookup = Map.empty,
      as_moduleInvoker = None, as_functionCounter = 0\<rparr>"

text \<open>
  \<^verbatim>\<open>analyzeFile\<close> reads and parses the file, which can throw; then it traverses.
  The outcome of reading and parsing is an input of the model.
\<close>

datatype parse_outcome = ParseFailed string | Parsed "visit list"

definition traverse :: "string \<Rightarrow> visit list \<Rightarrow> FileAnalysis" where
  "traverse relPath visits =
     (let st = fold (visitor relPath) visits initial_state
      in \<lparr>fa_path = relPath, fa_imports = as_imports st, fa_functions = as_functions st,
          fa_calls = as_calls st\<rparr>)"

definition analyzeFile :: "string \<Rightarrow> parse_outcome \<Rightarrow> string + FileAnalysis" where
  "analyzeFile relPath outcome =
     (case outcome of
        ParseFailed message \<Rightarrow> Inl message
      | Parsed visits \<Rightarrow> Inr (traverse relPath visits))"

section \<open>The graph assembler\<close>

subsection \<open>Edges and the analysis context\<close>

datatype edge_kind = K_imports | K_reexports | K_invokes | K_llm_reference

datatype source_type = S_static | S_llm

datatype RelationshipConfidence = C_low | C_medium | C_high

text \<open>\<^verbatim>\<open>FileEdgeRecord\<close> and \<^verbatim>\<open>FunctionEdgeRecord\<close> have the same fields.\<close>

record EdgeRecord =
  e_source :: string
  e_target :: string
  e_kind :: edge_kind
  e_sourceType :: source_type
  e_confidence :: "RelationshipConfidence option"
  e_reason :: "string option"

type_synonym edge_map = "(string \<times> EdgeRecord) list"

text \<open>
  A reference to a \<^verbatim>\<open>FunctionInfo\<close> object held outside its file's \<^verbatim>\<open>functions\<close>
  array (in \<^verbatim>\<open>exportedFunctions\<close> and \<^verbatim>\<open>functionLookup\<close>): the key of the file in
  \<^verbatim>\<open>ctx.files\<close> and the index in the array.
\<close>

type_synonym fn_ref = "string \<times> nat"

text \<open>
  The context. \<^verbatim>\<open>resolver\<close> is a closure over the file set, the path aliases and its
  cache, which are fields here; \<^verbatim>\<open>root\<close> is not read after the scan.
\<close>

record AnalysisContext =
  ctx_files :: "(string \<times> FileAnalysis) list"
  ctx_warnings :: "string list"
  ctx_fileEdges :: edge_map
  ctx_functionEdges :: edge_map
  ctx_unresolved :: "(string \<times> string list) list"
  ctx_exportedFunctions :: "string \<rightharpoonup> fn_ref"
  ctx_fileSet :: "string set"
  ctx_paths :: "TsconfigPathsEntry list"
  ctx_cache :: candidateCache

definition edge_key :: "string \<Rightarrow> string \<Rightarrow> string" where
  "edge_key source target = source @ ''->'' @ target"

definition static_edge :: "string \<Rightarrow> string \<Rightarrow> EdgeRecord option \<Rightarrow> EdgeRecord" where
  "static_edge source target existing =
     \<lparr>e_source = source, e_target = target,
      e_kind = (case existing of Some e \<Rightarrow> e_kind e | None \<Rightarrow> K_imports),
      e_sourceType = (case existing of Some e \<Rightarrow> e_sourceType e | None \<Rightarrow> S_static),
      e_confidence = (case existing of Some e \<Rightarrow> e_confidence e | None \<Rightarrow> None),
      e_reason = (case existing of Some e \<Rightarrow> e_reason e | None \<Rightarrow> None)\<rparr>"

definition set_static_edge :: "string \<Rightarrow> string \<Rightarrow> edge_map \<Rightarrow> edge_map" where
  \<comment> \<open>the insertion that \<^verbatim>\<open>resolveImports\<close> and \<^verbatim>\<open>collectFunctionEdges\<close> both make\<close>
  "set_static_edge source target edges =
     (let edgeKey = edge_key source target;
          existing = map_of edges edgeKey
      in AList.update edgeKey (static_edge source target existing) edges)"

definition update_file ::
  "string \<Rightarrow> (FileAnalysis \<Rightarrow> FileAnalysis) \<Rightarrow> (string \<times> FileAnalysis) list
     \<Rightarrow> (string \<times> FileAnalysis) list" where
  \<comment> \<open>a mutation of the analysis object stored under a key\<close>
  "update_file relPath f files = map (\<lambda>(k, a). if k = relPath then (k, f a) else (k, a)) files"

subsection \<open>\<^verbatim>\<open>resolveImports\<close>\<close>

definition add_unresolved ::
  "string \<Rightarrow> string \<Rightarrow> (string \<times> string list) list \<Rightarrow> (string \<times> string list) list" where
  "add_unresolved relPath source unresolved =
     (let specifiers = (case map_of unresolved relPath of Some s \<Rightarrow> s | None \<Rightarrow> [])
      in AList.update relPath
           (if source \<in> set specifiers then specifiers else specifiers @ [source]) unresolved)"

definition resolve_binding ::
  "string \<Rightarrow> ImportBinding \<Rightarrow> AnalysisContext \<Rightarrow> ImportBinding \<times> AnalysisContext" where
  \<comment> \<open>the body of \<^verbatim>\<open>for (const binding of analysis.imports)\<close>\<close>
  "resolve_binding relPath binding ctx =
     (case resolver (ctx_fileSet ctx) (ctx_paths ctx) (ctx_cache ctx) relPath (ib_source binding) of
        (resolved, cache') \<Rightarrow>
          (let ctx1 = ctx\<lparr>ctx_cache := cache'\<rparr> in
           if truthy resolved
           then
             (case resolved of
                Some target \<Rightarrow>
                  (binding\<lparr>ib_resolved := Some target,
                           ib_specifiers :=
                             map (\<lambda>spec. spec\<lparr>isb_resolved := Some target\<rparr>) (ib_specifiers binding)\<rparr>,
                   ctx1\<lparr>ctx_fileEdges := set_static_edge relPath target (ctx_fileEdges ctx1)\<rparr>)
              | None \<Rightarrow> (binding, ctx1))
           else if ib_source binding \<noteq> []
           then (binding,
                 ctx1\<lparr>ctx_unresolved := add_unresolved relPath (ib_source binding) (ctx_unresolved ctx1)\<rparr>)
           else (binding, ctx1)))"

fun resolve_bindings ::
  "string \<Rightarrow> ImportBinding list \<Rightarrow> AnalysisContext \<Rightarrow> ImportBinding list \<times> AnalysisContext" where
  "resolve_bindings relPath [] ctx = ([], ctx)"
| "resolve_bindings relPath (binding # bindings) ctx =
     (case resolve_binding relPath binding ctx of
        (binding', ctx1) \<Rightarrow>
          (case resolve_bindings relPath bindings ctx1 of
             (bindings', ctx2) \<Rightarrow> (binding' # bindings', ctx2)))"

definition resolve_file :: "string \<Rightarrow> AnalysisContext \<Rightarrow> AnalysisContext" where
  \<comment> \<open>the body of \<^verbatim>\<open>for (const [relPath, analysis] of ctx.files.entries())\<close>\<close>
  "resolve_file relPath ctx =
     (case map_of (ctx_files ctx) relPath of
        None \<Rightarrow> ctx
      | Some analysis \<Rightarrow>
          (case resolve_bindings relPath (fa_imports analysis) ctx of
             (imports', ctx1) \<Rightarrow>
               ctx1\<lparr>ctx_files := update_file relPath (\<lambda>a. a\<lparr>fa_imports := imports'\<rparr>) (ctx_files ctx1)\<rparr>))"

definition resolveImports :: "AnalysisContext \<Rightarrow> AnalysisContext" where
  "resolveImports ctx = fold resolve_file (map fst (ctx_files ctx)) ctx"

subsection \<open>\<^verbatim>\<open>collectFunctionExports\<close>\<close>

fun export_functions ::
  "string \<Rightarrow> string \<Rightarrow> nat \<Rightarrow> FunctionInfo list \<Rightarrow> (string \<rightharpoonup> fn_ref) \<Rightarrow> (string \<rightharpoonup> fn_ref)" where
  \<comment> \<open>the loop over \<^verbatim>\<open>analysis.functions\<close>, from index \<open>i\<close> on\<close>
  "export_functions relPath path i [] exported = exported"
| "export_functions relPath path i (fn # fns) exported =
     export_functions relPath path (Suc i) fns
       (case fn_exportName fn of
          Some exportName \<Rightarrow>
            (if fn_isExported fn \<and> exportName \<noteq> []
             then exported(path @ '':'' @ exportName \<mapsto> (relPath, i))
             else exported)
        | None \<Rightarrow> exported)"

definition collectFunctionExports :: "AnalysisContext \<Rightarrow> AnalysisContext" where
  "collectFunctionExports ctx =
     ctx\<lparr>ctx_exportedFunctions :=
           fold (\<lambda>(relPath, analysis). export_functions relPath (fa_path analysis) 0 (fa_functions analysis))
             (ctx_files ctx) (ctx_exportedFunctions ctx)\<rparr>"

subsection \<open>\<^verbatim>\<open>collectFunctionEdges\<close>\<close>

definition specifierMap_of :: "ImportBinding list \<Rightarrow> (string \<rightharpoonup> ImportSpecifierBinding)" where
  "specifierMap_of imports =
     fold (\<lambda>binding m. fold (\<lambda>spec m'. m'(isb_local spec \<mapsto> spec)) (ib_specifiers binding) m)
       imports Map.empty"

definition fn_at :: "(string \<times> FileAnalysis) list \<Rightarrow> fn_ref \<Rightarrow> FunctionInfo option" where
  "fn_at files ref =
     (case map_of files (fst ref) of
        None \<Rightarrow> None
      | Some analysis \<Rightarrow>
          (if snd ref < length (fa_functions analysis)
           then Some (fa_functions analysis ! snd ref) else None))"

definition set_include :: "fn_ref \<Rightarrow> (string \<times> FileAnalysis) list \<Rightarrow> (string \<times> FileAnalysis) list" where
  \<comment> \<open>\<^verbatim>\<open>fn.include = true\<close> through a reference\<close>
  "set_include ref files =
     update_file (fst ref)
       (\<lambda>a. a\<lparr>fa_functions := update_at (snd ref) (\<lambda>f. f\<lparr>fn_include := True\<rparr>) (fa_functions a)\<rparr>)
       files"

fun find_index :: "('a \<Rightarrow> bool) \<Rightarrow> 'a list \<Rightarrow> nat option" where
  \<comment> \<open>\<^verbatim>\<open>Array.prototype.find\<close>, returning the position of the object found\<close>
  "find_index P [] = None"
| "find_index P (x # xs) = (if P x then Some 0 else map_option Suc (find_index P xs))"

definition call_edge ::
  "string \<Rightarrow> (string \<rightharpoonup> ImportSpecifierBinding) \<Rightarrow> nat \<Rightarrow> CallBinding \<Rightarrow> AnalysisContext
     \<Rightarrow> AnalysisContext" where
  \<comment> \<open>the body of \<^verbatim>\<open>for (const call of analysis.calls)\<close>, for the call at index \<open>k\<close>\<close>
  "call_edge relPath specifierMap k call ctx =
     (case specifierMap (cb_local call) of
        None \<Rightarrow> ctx
      | Some spec \<Rightarrow>
          (case isb_resolved spec of
             None \<Rightarrow> ctx
           | Some resolved \<Rightarrow>
               (if resolved = [] then ctx
                else
                  (case (case ctx_exportedFunctions ctx (resolved @ '':'' @ isb_imported spec) of
                           Some t \<Rightarrow> Some t
                         | None \<Rightarrow> ctx_exportedFunctions ctx (resolved @ '':default'')) of
                     None \<Rightarrow> ctx
                   | Some targetRef \<Rightarrow>
                       (case map_of (ctx_files ctx) relPath of
                          None \<Rightarrow> ctx
                        | Some analysis \<Rightarrow>
                            (case find_index (\<lambda>fn. fn_id fn = cb_callerId call) (fa_functions analysis) of
                               None \<Rightarrow> ctx
                             | Some callerIx \<Rightarrow>
                                 (case fn_at (ctx_files ctx) targetRef of
                                    None \<Rightarrow> ctx
                                  | Some targetFn \<Rightarrow>
                                      (let caller = fa_functions analysis ! callerIx;
                                           files1 = set_include (relPath, callerIx) (ctx_files ctx);
                                           files2 = set_include targetRef files1;
                                           files3 = update_file relPath
                                             (\<lambda>a. a\<lparr>fa_calls :=
                                                       update_at k (\<lambda>c. c\<lparr>cb_resolved := Some resolved\<rparr>)
                                                         (fa_calls a)\<rparr>)
                                             files2
                                       in ctx\<lparr>ctx_files := files3,
                                              ctx_functionEdges :=
                                                set_static_edge (fn_id caller) (fn_id targetFn)
                                                  (ctx_functionEdges ctx)\<rparr>))))))))"

fun collect_calls ::
  "string \<Rightarrow> (string \<rightharpoonup> ImportSpecifierBinding) \<Rightarrow> nat \<Rightarrow> CallBinding list \<Rightarrow> AnalysisContext
     \<Rightarrow> AnalysisContext" where
  "collect_calls relPath specifierMap k [] ctx = ctx"
| "collect_calls relPath specifierMap k (call # calls) ctx =
     collect_calls relPath specifierMap (Suc k) calls (call_edge relPath specifierMap k call ctx)"

definition collect_file :: "string \<Rightarrow> AnalysisContext \<Rightarrow> AnalysisContext" where
  \<comment> \<open>the body of \<^verbatim>\<open>for (const analysis of ctx.files.values())\<close>\<close>
  "collect_file relPath ctx =
     (case map_of (ctx_files ctx) relPath of
        None \<Rightarrow> ctx
      | Some analysis \<Rightarrow>
          collect_calls relPath (specifierMap_of (fa_imports analysis)) 0 (fa_calls analysis) ctx)"

definition collectFunctionEdges :: "AnalysisContext \<Rightarrow> AnalysisContext" where
  "collectFunctionEdges ctx = fold collect_file (map fst (ctx_files ctx)) ctx"

subsection \<open>\<^verbatim>\<open>enrichRelationshipsWithLLM\<close>\<close>

record LLMRelationshipFileEdge =
  lf_source :: string
  lf_target :: string
  lf_relationship :: string
  lf_confidence :: "RelationshipConfidence option"

record LLMRelationshipFunctionEdge =
  lx_source :: "string \<times> string"  \<comment> \<open>\<^verbatim>\<open>filePath\<close> and \<^verbatim>\<open>symbol\<close>\<close>
  lx_target :: "string \<times> string"
  lx_relationship :: string
  lx_confidence :: "RelationshipConfidence option"
  lx_reason :: "string option"

record LLMRelationshipResult =
  lr_fileEdges :: "LLMRelationshipFileEdge list"
  lr_functionEdges :: "LLMRelationshipFunctionEdge list"
  lr_notes :: "string list"

definition toLowerCase :: "string \<Rightarrow> string" where
  \<comment> \<open>\<^verbatim>\<open>String.prototype.toLowerCase\<close> on ASCII text\<close>
  "toLowerCase s =
     map (\<lambda>c. if 65 \<le> (of_char c :: nat) \<and> (of_char c :: nat) \<le> 90
               then char_of ((of_char c :: nat) + 32) else c) s"

fun js_includes :: "string \<Rightarrow> string \<Rightarrow> bool" where
  \<comment> \<open>\<^verbatim>\<open>String.prototype.includes\<close>\<close>
  "js_includes [] sub = (sub = [])"
| "js_includes (c # cs) sub = (startsWith (c # cs) sub \<or> js_includes cs sub)"

definition llm_file_kind :: "string \<Rightarrow> edge_kind" where
  "llm_file_kind relationship =
     (if toLowerCase relationship = ''imports'' then K_imports else K_llm_reference)"

definition llm_function_kind :: "string \<Rightarrow> edge_kind" where
  "llm_function_kind relationship =
     (if js_includes (toLowerCase relationship) ''call'' \<or> js_includes (toLowerCase relationship) ''invoke''
      then K_invokes else K_llm_reference)"

definition upsert_llm_file_edge :: "LLMRelationshipFileEdge \<Rightarrow> edge_map \<Rightarrow> edge_map \<times> bool" where
  \<comment> \<open>the insertion of a proposed file edge whose endpoints passed the filter; the flag
      says whether a new edge was made\<close>
  "upsert_llm_file_edge edge edges =
     (let key = edge_key (lf_source edge) (lf_target edge);
          kind = llm_file_kind (lf_relationship edge)
      in case map_of edges key of
           Some existing \<Rightarrow>
             (if e_confidence existing = None
              then (AList.update key (existing\<lparr>e_confidence := lf_confidence edge\<rparr>) edges, False)
              else (edges, False))
         | None \<Rightarrow>
             (AList.update key
                \<lparr>e_source = lf_source edge, e_target = lf_target edge, e_kind = kind,
                 e_sourceType = S_llm, e_confidence = lf_confidence edge, e_reason = None\<rparr>
                edges,
              True))"

definition llm_file_edge ::
  "string set \<Rightarrow> LLMRelationshipFileEdge \<Rightarrow> edge_map \<times> nat \<Rightarrow> edge_map \<times> nat" where
  \<comment> \<open>the body of \<^verbatim>\<open>for (const edge of result.fileEdges ?? [])\<close>; the number is \<^verbatim>\<open>llmFileEdges\<close>\<close>
  "llm_file_edge filePaths edge acc =
     (case acc of
        (edges, llmFileEdges) \<Rightarrow>
          (if lf_source edge \<notin> filePaths \<or> lf_target edge \<notin> filePaths then (edges, llmFileEdges)
           else
             (case upsert_llm_file_edge edge edges of
                (edges', isNew) \<Rightarrow> (edges', if isNew then Suc llmFileEdges else llmFileEdges))))"

definition fn_identifiers :: "string \<Rightarrow> FunctionInfo \<Rightarrow> string list" where
  \<comment> \<open>the \<^verbatim>\<open>identifiers\<close> set of a function, in insertion order\<close>
  "fn_identifiers path fn =
     [fn_id fn]
     @ (case fn_exportName fn of
          Some e \<Rightarrow> (if e \<noteq> [] then [path @ '':'' @ e] else [])
        | None \<Rightarrow> [])
     @ (if fn_name fn \<noteq> [] then [path @ '':'' @ fn_name fn] else [])
     @ [path @ '':'' @ (case fn_exportName fn of Some e \<Rightarrow> e | None \<Rightarrow> fn_name fn)]"

definition lookup_add ::
  "string \<Rightarrow> string \<Rightarrow> nat \<Rightarrow> FunctionInfo \<Rightarrow> (string \<rightharpoonup> fn_ref) \<Rightarrow> (string \<rightharpoonup> fn_ref)" where
  \<comment> \<open>the body of \<^verbatim>\<open>for (const fn of analysis.functions)\<close> that fills \<^verbatim>\<open>functionLookup\<close>\<close>
  "lookup_add relPath path i fn functionLookup =
     (let m1 = fold (\<lambda>key m. m(key \<mapsto> (relPath, i))) (fn_identifiers path fn) functionLookup;
          m2 = (case fn_exportName fn of
                  Some e \<Rightarrow> (if e \<noteq> [] \<and> m1 e = None then m1(e \<mapsto> (relPath, i)) else m1)
                | None \<Rightarrow> m1)
      in if fn_name fn \<noteq> [] \<and> m2 (fn_name fn) = None then m2(fn_name fn \<mapsto> (relPath, i)) else m2)"

fun lookup_functions ::
  "string \<Rightarrow> string \<Rightarrow> nat \<Rightarrow> FunctionInfo list \<Rightarrow> (string \<rightharpoonup> fn_ref) \<Rightarrow> (string \<rightharpoonup> fn_ref)" where
  "lookup_functions relPath path i [] functionLookup = functionLookup"
| "lookup_functions relPath path i (fn # fns) functionLookup =
     lookup_functions relPath path (Suc i) fns (lookup_add relPath path i fn functionLookup)"

definition functionLookup_of :: "(string \<times> FileAnalysis) list \<Rightarrow> (string \<rightharpoonup> fn_ref)" where
  "functionLookup_of files =
     fold (\<lambda>(relPath, analysis). lookup_functions relPath (fa_path analysis) 0 (fa_functions analysis))
       files Map.empty"

definition merge_llm_function_edge :: "LLMRelationshipFunctionEdge \<Rightarrow> EdgeRecord \<Rightarrow> EdgeRecord" where
  \<comment> \<open>what an accepted proposal does to an existing function edge\<close>
  "merge_llm_function_edge edge existing =
     (let e1 = (if e_confidence existing = None
                then existing\<lparr>e_confidence := lx_confidence edge\<rparr> else existing)
      in if truthy (lx_reason edge)
         then e1\<lparr>e_reason :=
                   (case e_reason e1 of
                      Some old \<Rightarrow>
                        (if old \<noteq> []
                         then Some (old @ '' '' @ (case lx_reason edge of Some r \<Rightarrow> r | None \<Rightarrow> []))
                         else lx_reason edge)
                    | None \<Rightarrow> lx_reason edge)\<rparr>
         else e1)"

definition upsert_llm_function_edge ::
  "string \<Rightarrow> string \<Rightarrow> LLMRelationshipFunctionEdge \<Rightarrow> edge_map \<Rightarrow> edge_map \<times> bool" where
  \<comment> \<open>the insertion of a proposed function edge between the functions found for its two
      ends; the flag says whether a new edge was made\<close>
  "upsert_llm_function_edge sourceId targetId edge edges =
     (let key = edge_key sourceId targetId;
          inferredKind = llm_function_kind (lx_relationship edge)
      in case map_of edges key of
           Some existing \<Rightarrow> (AList.update key (merge_llm_function_edge edge existing) edges, False)
         | None \<Rightarrow>
             (AList.update key
                \<lparr>e_source = sourceId, e_target = targetId, e_kind = inferredKind,
                 e_sourceType = S_llm, e_confidence = lx_confidence edge,
                 e_reason = lx_reason edge\<rparr>
                edges,
              True))"

definition llm_function_edge ::
  "(string \<rightharpoonup> fn_ref) \<Rightarrow> LLMRelationshipFunctionEdge \<Rightarrow> AnalysisContext \<times> nat
     \<Rightarrow> AnalysisContext \<times> nat" where
  \<comment> \<open>the body of \<^verbatim>\<open>for (const edge of result.functionEdges ?? [])\<close>; the number is
      \<^verbatim>\<open>llmFunctionEdges\<close>\<close>
  "llm_function_edge functionLookup edge acc =
     (case acc of
        (ctx, llmFunctionEdges) \<Rightarrow>
          (let sourceKey = fst (lx_source edge) @ '':'' @ snd (lx_source edge);
               targetKey = fst (lx_target edge) @ '':'' @ snd (lx_target edge)
           in case functionLookup sourceKey of
                None \<Rightarrow> (ctx, llmFunctionEdges)
              | Some sourceRef \<Rightarrow>
                  (case functionLookup targetKey of
                     None \<Rightarrow> (ctx, llmFunctionEdges)
                   | Some targetRef \<Rightarrow>
                       (case fn_at (ctx_files ctx) sourceRef of
                          None \<Rightarrow> (ctx, llmFunctionEdges)
                        | Some sourceFn \<Rightarrow>
                            (case fn_at (ctx_files ctx) targetRef of
                               None \<Rightarrow> (ctx, llmFunctionEdges)
                             | Some targetFn \<Rightarrow>
                                 (case upsert_llm_function_edge (fn_id sourceFn) (fn_id targetFn) edge
                                         (ctx_functionEdges ctx) of
                                    (edges', isNew) \<Rightarrow>
                                      (ctx\<lparr>ctx_files :=
                                             set_include targetRef
                                               (set_include sourceRef (ctx_files ctx)),
                                           ctx_functionEdges := edges'\<rparr>,
                                       if isNew then Suc llmFunctionEdges
                                       else llmFunctionEdges)))))))"

definition plural :: "nat \<Rightarrow> string" where
  "plural n = (if n = 1 then [] else ''s'')"

definition merge_llm_result :: "LLMRelationshipResult \<Rightarrow> AnalysisContext \<Rightarrow> AnalysisContext" where
  "merge_llm_result result ctx =
     (let filePaths = set (map fst (ctx_files ctx)) in
      case fold (llm_file_edge filePaths) (lr_fileEdges result) (ctx_fileEdges ctx, 0) of
        (fileEdges', llmFileEdges) \<Rightarrow>
          (let ctx1 = ctx\<lparr>ctx_fileEdges := fileEdges'\<rparr>;
               functionLookup = functionLookup_of (ctx_files ctx1)
           in case fold (llm_function_edge functionLookup) (lr_functionEdges result) (ctx1, 0) of
                (ctx2, llmFunctionEdges) \<Rightarrow>
                  (let ctx3 = ctx2\<lparr>ctx_warnings :=
                                     ctx_warnings ctx2 @ map (\<lambda>note. ''LLM: '' @ note) (lr_notes result)\<rparr>
                   in if llmFileEdges \<noteq> 0 \<or> llmFunctionEdges \<noteq> 0
                      then ctx3\<lparr>ctx_warnings :=
                                  ctx_warnings ctx3
                                  @ [''LLM inferred '' @ string_of_nat llmFileEdges
                                     @ '' file relationship'' @ plural llmFileEdges @ '' and ''
                                     @ string_of_nat llmFunctionEdges @ '' function relationship''
                                     @ plural llmFunctionEdges @ ''.'']\<rparr>
                      else ctx3)))"

text \<open>
  \<^verbatim>\<open>inferRelationshipsWithLLM\<close> returns \<^verbatim>\<open>null\<close> without an API key or without digests
  (one digest per analysed file); otherwise it asks the service. What the request and
  the parsing of its response give, a thrown error (\<open>Inl\<close> its message) or a result, is
  an input of the model.
\<close>

definition enrichRelationshipsWithLLM ::
  "bool \<Rightarrow> string + LLMRelationshipResult \<Rightarrow> AnalysisContext \<Rightarrow> AnalysisContext" where
  "enrichRelationshipsWithLLM hasApiKey service ctx =
     (if \<not> hasApiKey \<or> ctx_files ctx = []
      then (if \<not> hasApiKey
            then ctx\<lparr>ctx_warnings :=
                       ctx_warnings ctx @ [''Set OPENAI_API_KEY to enable LLM-inferred relationships.'']\<rparr>
            else ctx)
      else
        (case service of
           Inl message \<Rightarrow>
             ctx\<lparr>ctx_warnings :=
                   ctx_warnings ctx @ [''LLM relationship inference failed: '' @ message]\<rparr>
         | Inr result \<Rightarrow> merge_llm_result result ctx))"

subsection \<open>\<^verbatim>\<open>collectUnresolvedWarnings\<close>\<close>

definition join_comma :: "string list \<Rightarrow> string" where
  "join_comma items = concat (case items of [] \<Rightarrow> [] | x # xs \<Rightarrow> x # map (\<lambda>y. '', '' @ y) xs)"

definition ellipsis :: string where
  \<comment> \<open>the character U+2026, in UTF-8\<close>
  "ellipsis = [CHR 0xE2, CHR 0x80, CHR 0xA6]"

definition collectUnresolvedWarnings :: "AnalysisContext \<Rightarrow> AnalysisContext" where
  "collectUnresolvedWarnings ctx =
     ctx\<lparr>ctx_warnings :=
           ctx_warnings ctx
           @ map (\<lambda>(file, specifiers).
                    (let summary = join_comma (take 5 specifiers)
                     in if length specifiers > 5
                        then ''Some imports in '' @ file @ '' could not be resolved: '' @ summary
                             @ '', '' @ ellipsis
                        else ''Could not resolve imports in '' @ file @ '': '' @ summary))
               (ctx_unresolved ctx)\<rparr>"

section \<open>The pipeline (\<^verbatim>\<open>analyzeRepositoryGraph\<close>)\<close>

record FileNode =
  node_id :: string
  node_label :: string
  node_path :: string
  node_isDirectory :: bool  \<comment> \<open>\<^verbatim>\<open>kind\<close>: \<^verbatim>\<open>'directory'\<close> or \<^verbatim>\<open>'file'\<close>\<close>

record GraphEdge =
  ge_id :: string
  ge_source :: string
  ge_target :: string
  ge_kind :: edge_kind
  ge_sourceType :: source_type
  ge_confidence :: "RelationshipConfidence option"
  ge_reason :: "string option"

record FunctionNode =
  fnode_id :: string
  fnode_label :: string
  fnode_filePath :: string
  fnode_exportName :: "string option"
  fnode_loc :: "loc option"

record Stats =
  fileCount :: nat
  directoryCount :: nat
  functionCount :: nat
  durationMs :: int

record AnalyzeResponseBody =
  files_nodes :: "FileNode list"
  files_edges :: "GraphEdge list"
  functions_nodes :: "FunctionNode list"
  functions_edges :: "GraphEdge list"
  warnings :: "string list"
  stats :: Stats
  generatedAt :: string

datatype error = RepoScannerError string

text \<open>
  The inputs: what \<^verbatim>\<open>resolveRepository\<close>, the two directory scans, \<^verbatim>\<open>loadTsconfigPaths\<close>,
  the clock and the language-model service give. A scanned file carries its relative
  path, its lower-cased extension and the outcome of reading and parsing it.
\<close>

record file_entry =
  fe_rel :: string
  fe_ext :: string
  fe_parse :: parse_outcome

record repo_input =
  in_isRemote :: bool
  in_displayName :: string
  in_basename :: string  \<comment> \<open>\<^verbatim>\<open>path.basename(repo.path)\<close>\<close>
  in_files :: "file_entry list"
  in_directories :: "string list"  \<comment> \<open>the relative paths of the scanned directories\<close>
  in_tsconfigPaths :: "TsconfigPathsEntry list"
  in_hasApiKey :: bool
  in_llmService :: "string + LLMRelationshipResult"
  in_startedAt :: int
  in_finishedAt :: int
  in_generatedAt :: string

definition js_set :: "'a list \<Rightarrow> 'a list" where
  \<comment> \<open>the elements of \<^verbatim>\<open>new Set(xs)\<close> in iteration order: first occurrences\<close>
  "js_set xs = rev (remdups (rev xs))"

definition extraction_step :: "file_entry \<Rightarrow> AnalysisContext \<Rightarrow> AnalysisContext" where
  \<comment> \<open>what one callback of the \<^verbatim>\<open>Promise.all\<close> does to the context once its file is analysed\<close>
  "extraction_step file ctx =
     (case analyzeFile (fe_rel file) (fe_parse file) of
        Inl message \<Rightarrow>
          ctx\<lparr>ctx_warnings :=
                ctx_warnings ctx @ [''Failed to analyze '' @ fe_rel file @ '': '' @ message]\<rparr>
      | Inr analysis \<Rightarrow> ctx\<lparr>ctx_files := AList.update (fe_rel file) analysis (ctx_files ctx)\<rparr>)"

text \<open>
  The callbacks of the \<^verbatim>\<open>Promise.all\<close> start in the order of \<^verbatim>\<open>parseTargets\<close> and each
  waits for its file to be read; a callback writes to the context when its own read
  completes. The time at which each read completes is not the program's to decide: it is
  an input, \<open>completedAt\<close>, and the callbacks run in the order of these times (in the
  order they started, for equal times).
\<close>

definition extraction :: "(string \<Rightarrow> nat) \<Rightarrow> file_entry list \<Rightarrow> AnalysisContext \<Rightarrow> AnalysisContext" where
  "extraction completedAt parseTargets ctx =
     fold extraction_step (sort_key (\<lambda>file. completedAt (fe_rel file)) parseTargets) ctx"

definition directoryNodes_of :: "string \<Rightarrow> string list \<Rightarrow> FileNode list" where
  "directoryNodes_of repoLabel directories =
     map (\<lambda>relPath.
            (let isRoot = (relPath = ''.'' \<or> relPath = []);
                 displayPath = (if isRoot then ''.'' else relPath);
                 labelBase = (if isRoot then repoLabel
                              else if posix_basename relPath \<noteq> [] then posix_basename relPath
                              else repoLabel)
             in \<lparr>node_id = ''dir:'' @ displayPath, node_label = labelBase @ ''/'',
                 node_path = displayPath, node_isDirectory = True\<rparr>))
       directories"

definition graph_edge :: "EdgeRecord \<Rightarrow> GraphEdge" where
  "graph_edge edge =
     \<lparr>ge_id = e_source edge @ ''->'' @ e_target edge, ge_source = e_source edge,
      ge_target = e_target edge, ge_kind = e_kind edge, ge_sourceType = e_sourceType edge,
      ge_confidence = e_confidence edge, ge_reason = e_reason edge\<rparr>"

definition function_node :: "FunctionInfo \<Rightarrow> FunctionNode" where
  "function_node fn =
     \<lparr>fnode_id = fn_id fn,
      fnode_label = (case fn_exportName fn of Some e \<Rightarrow> e | None \<Rightarrow> fn_name fn),
      fnode_filePath = fn_filePath fn, fnode_exportName = fn_exportName fn, fnode_loc = fn_loc fn\<rparr>"

definition push_function_node ::
  "FunctionInfo \<Rightarrow> FunctionNode list \<times> string set \<Rightarrow> FunctionNode list \<times> string set" where
  \<comment> \<open>the body of the inner loop; the set is \<^verbatim>\<open>seenFunctionNodes\<close>\<close>
  "push_function_node fn acc =
     (case acc of
        (functionNodes, seen) \<Rightarrow>
          (if \<not> fn_include fn then (functionNodes, seen)
           else if fn_id fn \<in> seen then (functionNodes, seen)
           else (functionNodes @ [function_node fn], insert (fn_id fn) seen)))"

definition functionNodes_of :: "(string \<times> FileAnalysis) list \<Rightarrow> FunctionNode list" where
  "functionNodes_of files =
     fst (fold (\<lambda>(relPath, analysis) acc. fold push_function_node (fa_functions analysis) acc)
            files ([], {}))"

definition initial_context :: "repo_input \<Rightarrow> AnalysisContext" where
  "initial_context inp =
     \<lparr>ctx_files = [],
      ctx_warnings =
        (if in_isRemote inp then [''Repository cloned into local cache (.gitweb-cache/repos).'']
         else []),
      ctx_fileEdges = [], ctx_functionEdges = [], ctx_unresolved = [],
      ctx_exportedFunctions = Map.empty,
      ctx_fileSet = set (map fe_rel (in_files inp)),
      ctx_paths = in_tsconfigPaths inp,
      ctx_cache = Map.empty\<rparr>"

definition parseTargets_of :: "repo_input \<Rightarrow> file_entry list" where
  "parseTargets_of inp = filter (\<lambda>file. fe_ext file \<in> set SUPPORTED_EXTENSIONS) (in_files inp)"

definition no_parsed_warning :: "AnalysisContext \<Rightarrow> AnalysisContext" where
  "no_parsed_warning ctx =
     (if ctx_files ctx = []
      then ctx\<lparr>ctx_warnings :=
                 ctx_warnings ctx
                 @ [''No supported source files were parsed. File graph includes nodes without edges.'']\<rparr>
      else ctx)"

definition static_context :: "repo_input \<Rightarrow> (string \<Rightarrow> nat) \<Rightarrow> AnalysisContext" where
  \<comment> \<open>the context after extraction and the three deterministic passes\<close>
  "static_context inp completedAt =
     collectFunctionEdges
       (collectFunctionExports
          (resolveImports
             (no_parsed_warning
                (extraction completedAt (parseTargets_of inp) (initial_context inp)))))"

definition final_context :: "repo_input \<Rightarrow> (string \<Rightarrow> nat) \<Rightarrow> AnalysisContext" where
  "final_context inp completedAt =
     collectUnresolvedWarnings
       (enrichRelationshipsWithLLM (in_hasApiKey inp) (in_llmService inp)
          (static_context inp completedAt))"

definition response_of :: "repo_input \<Rightarrow> AnalysisContext \<Rightarrow> AnalyzeResponseBody" where
  \<comment> \<open>the materialization of nodes and edges from the context\<close>
  "response_of inp ctx =
     (let directories =
            js_set (map (\<lambda>rel. if rel = [] then ''.'' else rel) (in_directories inp) @ [''.'']);
          repoLabel = (if in_displayName inp \<noteq> [] then in_displayName inp else in_basename inp);
          parsedFileNodes = set (map fst (ctx_files ctx));
          directoryNodes = directoryNodes_of repoLabel directories;
          fileNodes =
            directoryNodes
            @ map (\<lambda>file.
                     \<lparr>node_id = fe_rel file,
                      node_label = (if posix_basename (fe_rel file) \<noteq> []
                                    then posix_basename (fe_rel file) else repoLabel),
                      node_path = fe_rel file, node_isDirectory = False\<rparr>)
                (filter (\<lambda>file. fe_rel file \<in> parsedFileNodes) (in_files inp));
          fileEdges = map (\<lambda>(key, edge). graph_edge edge) (ctx_fileEdges ctx);
          functionNodes = functionNodes_of (ctx_files ctx);
          functionEdges = map (\<lambda>(key, edge). graph_edge edge) (ctx_functionEdges ctx)
      in \<lparr>files_nodes = fileNodes, files_edges = fileEdges,
          functions_nodes = functionNodes, functions_edges = functionEdges,
          warnings = ctx_warnings ctx,
          stats = \<lparr>fileCount = card parsedFileNodes,
                   directoryCount = length directoryNodes,
                   functionCount = length functionNodes,
                   durationMs = in_finishedAt inp - in_startedAt inp\<rparr>,
          generatedAt = in_generatedAt inp\<rparr>)"

definition analyzeRepositoryGraph :: "repo_input \<Rightarrow> (string \<Rightarrow> nat) \<Rightarrow> error + AnalyzeResponseBody" where
  "analyzeRepositoryGraph inp completedAt =
     (if in_files inp = [] then Inl (RepoScannerError ''No files were found in the repository.'')
      else Inr (response_of inp (final_context inp completedAt)))"

section \<open>Specification predicates and example inputs\<close>

definition cache_ok :: "string set \<Rightarrow> candidateCache \<Rightarrow> bool" where
  \<comment> \<open>every memoized entry is what probing the file set gives for its key\<close>
  "cache_ok fileSet cache =
     (\<forall>k r. cache k = Some r \<longrightarrow> r = find (\<lambda>c. c \<in> fileSet) (candidates k))"

definition no_files_input :: repo_input where
  \<comment> \<open>a repository in which the scan finds no file\<close>
  "no_files_input =
     \<lparr>in_isRemote = False, in_displayName = ''repo'', in_basename = ''repo'',
      in_files = [], in_directories = [], in_tsconfigPaths = [], in_hasApiKey = False,
      in_llmService = Inl [], in_startedAt = 0, in_finishedAt = 0, in_generatedAt = []\<rparr>"

definition unparsable_input :: repo_input where
  \<comment> \<open>a repository with an unsupported file and a TypeScript file that does not parse\<close>
  "unparsable_input =
     \<lparr>in_isRemote = False, in_displayName = ''repo'', in_basename = ''repo'',
      in_files = [\<lparr>fe_rel = ''README.md'', fe_ext = ''.md'', fe_parse = ParseFailed []\<rparr>,
                  \<lparr>fe_rel = ''src/broken.ts'', fe_ext = ''.ts'',
                   fe_parse = ParseFailed ''Unexpected token (1:0)''\<rparr>],
      in_directories = [''src''], in_tsconfigPaths = [], in_hasApiKey = False,
      in_llmService = Inl [], in_startedAt = 0, in_finishedAt = 0, in_generatedAt = []\<rparr>"

text \<open>
  The insertions that the passes make into an edge map: the static one of
  \<^verbatim>\<open>resolveImports\<close> and \<^verbatim>\<open>collectFunctionEdges\<close>, and the two of the enrichment pass,
  each for a proposal that passed its endpoint check.
\<close>

datatype edge_insertion =
    StaticInsert string string
  | LlmFileInsert LLMRelationshipFileEdge
  | LlmFunctionInsert string string LLMRelationshipFunctionEdge

fun insertion_key :: "edge_insertion \<Rightarrow> string" where
  "insertion_key (StaticInsert source target) = edge_key source target"
| "insertion_key (LlmFileInsert edge) = edge_key (lf_source edge) (lf_target edge)"
| "insertion_key (LlmFunctionInsert sourceId targetId edge) = edge_key sourceId targetId"

fun insert_edge :: "edge_insertion \<Rightarrow> edge_map \<Rightarrow> edge_map" where
  "insert_edge (StaticInsert source target) edges = set_static_edge source target edges"
| "insert_edge (LlmFileInsert edge) edges = fst (upsert_llm_file_edge edge edges)"
| "insert_edge (LlmFunctionInsert sourceId targetId edge) edges =
     fst (upsert_llm_function_edge sourceId targetId edge edges)"

definition all_functions :: "(string \<times> FileAnalysis) list \<Rightarrow> FunctionInfo list" where
  \<comment> \<open>every \<^verbatim>\<open>FunctionInfo\<close> of every analysed file\<close>
  "all_functions files = concat (map (\<lambda>(relPath, analysis). fa_functions analysis) files)"

definition included_ids :: "(string \<times> FileAnalysis) list \<Rightarrow> string set" where
  \<comment> \<open>the ids of the records whose \<^verbatim>\<open>include\<close> flag is set\<close>
  "included_ids files = {fn_id fn | fn. fn \<in> set (all_functions files) \<and> fn_include fn}"

definition example_input :: "file_entry list \<Rightarrow> bool \<Rightarrow> LLMRelationshipResult \<Rightarrow> repo_input" where
  \<comment> \<open>a local repository with the given files, and what the language-model service answers\<close>
  "example_input files hasApiKey result =
     \<lparr>in_isRemote = False, in_displayName = ''repo'', in_basename = ''repo'',
      in_files = files, in_directories = [], in_tsconfigPaths = [],
      in_hasApiKey = hasApiKey, in_llmService = Inr result,
      in_startedAt = 0, in_finishedAt = 0, in_generatedAt = []\<rparr>"

definition no_proposals :: LLMRelationshipResult where
  "no_proposals = \<lparr>lr_fileEdges = [], lr_functionEdges = [], lr_notes = []\<rparr>"

definition function_declaration :: "nat \<Rightarrow> string \<Rightarrow> fn_node" where
  \<comment> \<open>the node of \<^verbatim>\<open>function name() {}\<close>\<close>
  "function_declaration i name =
     \<lparr>n_id = i, n_type = FunctionDeclaration, n_name = Some name, n_parent = OtherParent,
      n_loc = None\<rparr>"

definition json_import_files :: "file_entry list" where
  \<comment> \<open>\<^verbatim>\<open>app.ts\<close> is \<^verbatim>\<open>import config from './config';\<close> beside \<^verbatim>\<open>config.json\<close>\<close>
  "json_import_files =
     [\<lparr>fe_rel = ''app.ts'', fe_ext = ''.ts'',
       fe_parse = Parsed [V_ImportDeclaration [ImportDefaultSpecifier ''config''] ''./config'']\<rparr>,
      \<lparr>fe_rel = ''config.json'', fe_ext = ''.json'', fe_parse = Parsed []\<rparr>]"

definition two_locals_files :: "file_entry list" where
  \<comment> \<open>\<^verbatim>\<open>a.ts\<close> is \<^verbatim>\<open>function foo() {} function bar() {}\<close>; \<^verbatim>\<open>b.ts\<close> is empty\<close>
  "two_locals_files =
     [\<lparr>fe_rel = ''a.ts'', fe_ext = ''.ts'',
       fe_parse = Parsed [V_FunctionDeclaration (function_declaration 1 ''foo'') False,
                          V_FunctionDeclaration (function_declaration 2 ''bar'') False]\<rparr>,
      \<lparr>fe_rel = ''b.ts'', fe_ext = ''.ts'', fe_parse = Parsed []\<rparr>]"

definition foo_to_bar :: "string \<Rightarrow> string option \<Rightarrow> LLMRelationshipFunctionEdge" where
  \<comment> \<open>a proposed function edge from \<^verbatim>\<open>foo\<close> to \<^verbatim>\<open>bar\<close> of \<^verbatim>\<open>a.ts\<close>\<close>
  "foo_to_bar relationship reason =
     \<lparr>lx_source = (''a.ts'', ''foo''), lx_target = (''a.ts'', ''bar''),
      lx_relationship = relationship, lx_confidence = None, lx_reason = reason\<rparr>"


definition edge_summary :: "GraphEdge \<Rightarrow> string \<times> string \<times> edge_kind \<times> source_type" where
  "edge_summary e = (ge_source e, ge_target e, ge_kind e, ge_sourceType e)"



section \<open>Invariants of the passes\<close>

definition keyed :: "edge_map \<Rightarrow> bool" where
  "keyed m = (\<forall>(k, e) \<in> set m. k = edge_key (e_source e) (e_target e))"

definition edge_has :: "edge_map \<Rightarrow> string \<Rightarrow> edge_kind \<Rightarrow> source_type \<Rightarrow> bool" where
  "edge_has m k K T = (\<exists>r. map_of m k = Some r \<and> e_kind r = K \<and> e_sourceType r = T)"

text \<open>The file edges: static, from an analysed file, to a known file.\<close>

definition static_file_edges :: "string set \<Rightarrow> string set \<Rightarrow> edge_map \<Rightarrow> bool" where
  "static_file_edges keys fs edges =
     (\<forall>(k, e) \<in> set edges. e_sourceType e = S_static \<and> e_source e \<in> keys \<and> e_target e \<in> fs)"

definition same_fn :: "FunctionInfo \<Rightarrow> FunctionInfo \<Rightarrow> bool" where
  "same_fn f f' = (f' = f\<lparr>fn_include := fn_include f'\<rparr> \<and> (fn_include f \<longrightarrow> fn_include f'))"

definition same_call :: "CallBinding \<Rightarrow> CallBinding \<Rightarrow> bool" where
  "same_call c c' = (c' = c\<lparr>cb_resolved := cb_resolved c'\<rparr>)"

definition same_analysis :: "FileAnalysis \<Rightarrow> FileAnalysis \<Rightarrow> bool" where
  "same_analysis a a' =
     (fa_path a' = fa_path a \<and> fa_imports a' = fa_imports a
      \<and> list_all2 same_call (fa_calls a) (fa_calls a')
      \<and> list_all2 same_fn (fa_functions a) (fa_functions a'))"

definition grows :: "(string \<times> FileAnalysis) list \<Rightarrow> (string \<times> FileAnalysis) list \<Rightarrow> bool" where
  "grows files files' = list_all2 (\<lambda>p p'. fst p' = fst p \<and> same_analysis (snd p) (snd p')) files files'"

definition ids_incl :: "FunctionInfo list \<Rightarrow> string set" where
  "ids_incl fns = {fn_id fn | fn. fn \<in> set fns \<and> fn_include fn}"

definition endpoints_in :: "string set \<Rightarrow> edge_map \<Rightarrow> bool" where
  "endpoints_in ids edges = (\<forall>(k, e) \<in> set edges. e_source e \<in> ids \<and> e_target e \<in> ids)"

text \<open>What one iteration of the call loop does to the context.\<close>

definition call_target :: "AnalysisContext \<Rightarrow> ImportSpecifierBinding \<Rightarrow> string \<Rightarrow> fn_ref option" where
  "call_target ctx spec resolved =
     (case ctx_exportedFunctions ctx (resolved @ '':'' @ isb_imported spec) of
        Some t \<Rightarrow> Some t
      | None \<Rightarrow> ctx_exportedFunctions ctx (resolved @ '':default''))"

definition edges_pass_inv :: "AnalysisContext \<Rightarrow> AnalysisContext \<Rightarrow> bool" where
  \<comment> \<open>what holds of the context during a pass that adds function edges\<close>
  "edges_pass_inv ctx0 ctx =
     (grows (ctx_files ctx0) (ctx_files ctx)
      \<and> endpoints_in (included_ids (ctx_files ctx)) (ctx_functionEdges ctx)
      \<and> ctx_fileEdges ctx = ctx_fileEdges ctx0
      \<and> ctx_exportedFunctions ctx = ctx_exportedFunctions ctx0
      \<and> ctx_warnings ctx = ctx_warnings ctx0
      \<and> ctx_fileSet ctx = ctx_fileSet ctx0
      \<and> ctx_unresolved ctx = ctx_unresolved ctx0)"

definition file_edges_ok :: "string set \<Rightarrow> string set \<Rightarrow> edge_map \<Rightarrow> bool" where
  "file_edges_ok keys fs edges =
     (\<forall>(k, e) \<in> set edges.
        e_source e \<in> keys
        \<and> (e_sourceType e = S_static \<longrightarrow> e_target e \<in> fs)
        \<and> (e_sourceType e = S_llm \<longrightarrow> e_target e \<in> keys))"

definition enriched :: "AnalysisContext \<Rightarrow> AnalysisContext \<Rightarrow> bool" where
  \<comment> \<open>what the enrichment pass keeps of the context it starts from\<close>
  "enriched ctx ctx' =
     (grows (ctx_files ctx) (ctx_files ctx')
      \<and> endpoints_in (included_ids (ctx_files ctx')) (ctx_functionEdges ctx')
      \<and> file_edges_ok (set (map fst (ctx_files ctx))) (ctx_fileSet ctx) (ctx_fileEdges ctx')
      \<and> ctx_fileSet ctx' = ctx_fileSet ctx)"

definition exp_incl :: "FunctionInfo list \<Rightarrow> bool" where
  "exp_incl fns = (\<forall>fn \<in> set fns. fn_isExported fn \<longrightarrow> fn_include fn)"

definition extracted :: "string set \<Rightarrow> AnalysisContext \<Rightarrow> bool" where
  \<comment> \<open>the context during and after the extraction phase, for parse targets with paths in \<open>rels\<close>\<close>
  "extracted rels ctx =
     (set (map fst (ctx_files ctx)) \<subseteq> rels
      \<and> exp_incl (all_functions (ctx_files ctx))
      \<and> ctx_fileEdges ctx = [] \<and> ctx_functionEdges ctx = []
      \<and> ctx_cache ctx = Map.empty)"

definition analysed :: "string set \<Rightarrow> AnalysisContext \<Rightarrow> bool" where
  \<comment> \<open>the context after import resolution\<close>
  "analysed rels ctx =
     (set (map fst (ctx_files ctx)) \<subseteq> rels
      \<and> exp_incl (all_functions (ctx_files ctx))
      \<and> static_file_edges (set (map fst (ctx_files ctx))) (ctx_fileSet ctx) (ctx_fileEdges ctx)
      \<and> endpoints_in (included_ids (ctx_files ctx)) (ctx_functionEdges ctx))"

text \<open>What holds of the final context.\<close>

definition assembled :: "repo_input \<Rightarrow> AnalysisContext \<Rightarrow> bool" where
  "assembled inp ctx =
     (set (map fst (ctx_files ctx)) \<subseteq> fe_rel ` set (parseTargets_of inp)
      \<and> exp_incl (all_functions (ctx_files ctx))
      \<and> file_edges_ok (set (map fst (ctx_files ctx))) (fe_rel ` set (in_files inp)) (ctx_fileEdges ctx)
      \<and> endpoints_in (included_ids (ctx_files ctx)) (ctx_functionEdges ctx))"





definition link_keys :: "(string \<times> string) list \<Rightarrow> string set" where
  "link_keys links = (\<lambda>(callerId, targetId). edge_key callerId targetId) ` set links"

definition link_ids :: "(string \<times> string) list \<Rightarrow> string set" where
  "link_ids links = fst ` set links \<union> snd ` set links"

definition edge_keys_ok :: "edge_map \<Rightarrow> bool" where
  "edge_keys_ok m = (keyed m \<and> distinct (map fst m))"


section \<open>Verified properties\<close>

subsection \<open>The resolver\<close>

lemma cache_ok_empty: "cache_ok fileSet Map.empty"
  by (simp add: cache_ok_def)

lemma tryCandidates_fst:
  "cache_ok fileSet cache \<Longrightarrow>
   fst (tryCandidates fileSet cache base)
     = find (\<lambda>c. c \<in> fileSet) (candidates (normBase_of base))"
  by (auto simp: tryCandidates_def cache_ok_def Let_def split: option.splits)

lemma tryCandidates_cache_ok:
  "cache_ok fileSet cache \<Longrightarrow> cache_ok fileSet (snd (tryCandidates fileSet cache base))"
  by (auto simp: tryCandidates_def cache_ok_def Let_def split: option.splits)

lemma dirname_example: "posix_dirname ''a/x.ts'' = ''a''"
  by code_simp

lemma join_example: "posix_normalize (posix_join [''a'', ''./b'']) = ''a/b''"
  by code_simp

text \<open>
  Claim C2. Candidate probing of a base path tries the base path itself, then the base
  path with each import extension appended, then the base path with each index-file name
  appended, and returns the first candidate that is in the known-file set (the cache
  holding results of earlier probes of the same file set); with the known files
  \<^verbatim>\<open>a/b.ts\<close> and \<^verbatim>\<open>a/b/index.ts\<close>, the specifier \<^verbatim>\<open>./b\<close> resolves from \<^verbatim>\<open>a/x.ts\<close> to
  \<^verbatim>\<open>a/b.ts\<close>, whatever the path aliases.
\<close>

theorem candidate_probing_order:
  assumes "cache_ok fileSet cache"
  shows "fst (tryCandidates fileSet cache base) =
           find (\<lambda>candidate. candidate \<in> fileSet)
             ([normBase_of base]
              @ map (\<lambda>ext. normBase_of base @ ext)
                  [''.ts'', ''.tsx'', ''.js'', ''.jsx'', ''.mjs'', ''.cjs'', ''.json'']
              @ map (\<lambda>index. normBase_of base @ index)
                  [''/index.ts'', ''/index.tsx'', ''/index.js'', ''/index.jsx'',
                   ''/index.mjs'', ''/index.cjs'', ''/index.json''])
         \<and> cache_ok fileSet (snd (tryCandidates fileSet cache base))
         \<and> (fileSet = {''a/b.ts'', ''a/b/index.ts''} \<longrightarrow>
              fst (resolver fileSet paths cache ''a/x.ts'' ''./b'') = Some ''a/b.ts'')"
proof (intro conjI impI)
  show "fst (tryCandidates fileSet cache base) =
           find (\<lambda>candidate. candidate \<in> fileSet)
             ([normBase_of base]
              @ map (\<lambda>ext. normBase_of base @ ext)
                  [''.ts'', ''.tsx'', ''.js'', ''.jsx'', ''.mjs'', ''.cjs'', ''.json'']
              @ map (\<lambda>index. normBase_of base @ index)
                  [''/index.ts'', ''/index.tsx'', ''/index.js'', ''/index.jsx'',
                   ''/index.mjs'', ''/index.cjs'', ''/index.json''])"
    using tryCandidates_fst [OF assms, of base]
    by (simp add: candidates_def IMPORT_EXTENSIONS_def INDEX_FILES_def)
  show "cache_ok fileSet (snd (tryCandidates fileSet cache base))"
    by (rule tryCandidates_cache_ok [OF assms])
  assume fs: "fileSet = {''a/b.ts'', ''a/b/index.ts''}"
  have "fst (resolver fileSet paths cache ''a/x.ts'' ''./b'')
          = fst (tryCandidates fileSet cache ''a/b'')"
    by (simp add: resolver_def startsWith_def dirname_example join_example)
  also have "\<dots> = find (\<lambda>c. c \<in> fileSet) (candidates (normBase_of ''a/b''))"
    by (rule tryCandidates_fst [OF assms])
  also have "\<dots> = Some ''a/b.ts''"
    unfolding fs by (simp add: candidates_def normBase_of_def IMPORT_EXTENSIONS_def INDEX_FILES_def)
  finally show "fst (resolver fileSet paths cache ''a/x.ts'' ''./b'') = Some ''a/b.ts''" .
qed

theorem candidate_probing_order_witness:
  "cache_ok {''a/b.ts'', ''a/b/index.ts''} Map.empty
   \<and> fst (tryCandidates {''a/b.ts'', ''a/b/index.ts''} Map.empty ''a/b'') = Some ''a/b.ts''
   \<and> fst (resolver {''a/b.ts'', ''a/b/index.ts''} [] Map.empty ''a/x.ts'' ''./b'') = Some ''a/b.ts''"
  using candidate_probing_order [OF cache_ok_empty, of "{''a/b.ts'', ''a/b/index.ts''}" "''a/b''" "[]"]
  by (simp add: cache_ok_empty normBase_of_def)

subsection \<open>A repository without files, or without a file that parses\<close>

lemma extraction_step_failed:
  "fe_parse file = ParseFailed m \<Longrightarrow>
   extraction_step file ctx =
     ctx\<lparr>ctx_warnings := ctx_warnings ctx @ [''Failed to analyze '' @ fe_rel file @ '': '' @ m]\<rparr>"
  by (simp add: extraction_step_def analyzeFile_def)

lemma fold_extraction_failed:
  "\<forall>f \<in> set fs. \<exists>m. fe_parse f = ParseFailed m \<Longrightarrow>
   \<exists>ws. fold extraction_step fs ctx = ctx\<lparr>ctx_warnings := ctx_warnings ctx @ ws\<rparr>"
proof (induction fs arbitrary: ctx)
  case Nil
  have "ctx = ctx\<lparr>ctx_warnings := ctx_warnings ctx @ []\<rparr>" by simp
  then show ?case by (metis fold_simps(1))
next
  case (Cons f fs)
  then obtain m where m: "fe_parse f = ParseFailed m" by auto
  let ?ctx1 = "ctx\<lparr>ctx_warnings := ctx_warnings ctx @ [''Failed to analyze '' @ fe_rel f @ '': '' @ m]\<rparr>"
  from Cons obtain ws where "fold extraction_step fs ?ctx1 = ?ctx1\<lparr>ctx_warnings := ctx_warnings ?ctx1 @ ws\<rparr>"
    by (metis list.set_intros(2))
  then have "fold extraction_step (f # fs) ctx
      = ctx\<lparr>ctx_warnings := ctx_warnings ctx @ ((''Failed to analyze '' @ fe_rel f @ '': '' @ m) # ws)\<rparr>"
    by (simp add: extraction_step_failed [OF m])
  then show ?case by blast
qed

lemma extraction_all_failed:
  assumes "\<forall>f \<in> set fs. \<exists>m. fe_parse f = ParseFailed m"
  shows "\<exists>ws. extraction completedAt fs ctx = ctx\<lparr>ctx_warnings := ctx_warnings ctx @ ws\<rparr>"
  unfolding extraction_def
  by (rule fold_extraction_failed) (use assms in simp)

lemma final_context_nothing_parsed:
  assumes "\<forall>f \<in> set (parseTargets_of inp). \<exists>m. fe_parse f = ParseFailed m"
  shows "ctx_files (final_context inp completedAt) = []
       \<and> ctx_fileEdges (final_context inp completedAt) = []
       \<and> ctx_functionEdges (final_context inp completedAt) = []
       \<and> ''No supported source files were parsed. File graph includes nodes without edges.''
           \<in> set (ctx_warnings (final_context inp completedAt))"
proof -
  obtain ws where ws: "extraction completedAt (parseTargets_of inp) (initial_context inp)
      = (initial_context inp)\<lparr>ctx_warnings := ctx_warnings (initial_context inp) @ ws\<rparr>"
    using extraction_all_failed [OF assms] by blast
  show ?thesis
    unfolding final_context_def static_context_def ws
    by (simp add: initial_context_def no_parsed_warning_def resolveImports_def
        collectFunctionExports_def collectFunctionEdges_def enrichRelationshipsWithLLM_def
        collectUnresolvedWarnings_def)
qed

lemma directoryNodes_are_directories:
  "n \<in> set (directoryNodes_of label ds) \<Longrightarrow> node_isDirectory n"
  by (auto simp: directoryNodes_of_def Let_def)

lemma root_directory_node:
  assumes "''.'' \<in> set ds"
  shows "\<lparr>node_id = ''dir:.'', node_label = label @ ''/'', node_path = ''.'', node_isDirectory = True\<rparr>
           \<in> set (directoryNodes_of label ds)"
  unfolding directoryNodes_of_def set_map
  by (rule image_eqI [where x = "''.''"]) (simp_all add: Let_def assms)

lemma response_nothing_parsed:
  assumes "ctx_files ctx = []" "ctx_fileEdges ctx = []" "ctx_functionEdges ctx = []"
  shows "files_nodes (response_of inp ctx)
           = directoryNodes_of (if in_displayName inp \<noteq> [] then in_displayName inp else in_basename inp)
               (js_set (map (\<lambda>rel. if rel = [] then ''.'' else rel) (in_directories inp) @ [''.'']))"
    and "files_edges (response_of inp ctx) = []"
    and "functions_nodes (response_of inp ctx) = []"
    and "functions_edges (response_of inp ctx) = []"
    and "warnings (response_of inp ctx) = ctx_warnings ctx"
  using assms by (simp_all add: response_of_def Let_def functionNodes_of_def)

text \<open>
  Claim C7, as amended. When the scan finds no file, the pipeline raises
  \<^verbatim>\<open>RepoScannerError\<close> (\<^verbatim>\<open>No files were found in the repository.\<close>). When it finds files
  but none of the supported ones parses, the pipeline does not fail: it returns a graph
  whose file nodes are all directories (the root among them), without edges and without
  function nodes, and with the warning that no supported source file was parsed.
\<close>

theorem pipeline_without_parsed_files:
  "(in_files inp = [] \<longrightarrow>
      analyzeRepositoryGraph inp completedAt
        = Inl (RepoScannerError ''No files were found in the repository.''))
   \<and> (in_files inp \<noteq> []
        \<and> (\<forall>f \<in> set (in_files inp).
              fe_ext f \<in> set [''.ts'', ''.tsx'', ''.js'', ''.jsx'', ''.mjs'', ''.cjs'']
                \<longrightarrow> (\<exists>m. fe_parse f = ParseFailed m)) \<longrightarrow>
      (\<exists>r. analyzeRepositoryGraph inp completedAt = Inr r
          \<and> (\<forall>n \<in> set (files_nodes r). node_isDirectory n)
          \<and> \<lparr>node_id = ''dir:.'', node_label = (if in_displayName inp \<noteq> [] then in_displayName inp else in_basename inp) @ ''/'',
               node_path = ''.'', node_isDirectory = True\<rparr> \<in> set (files_nodes r)
          \<and> files_edges r = [] \<and> functions_nodes r = [] \<and> functions_edges r = []
          \<and> ''No supported source files were parsed. File graph includes nodes without edges.''
               \<in> set (warnings r)))"
proof (intro conjI impI)
  assume "in_files inp = []"
  then show "analyzeRepositoryGraph inp completedAt
        = Inl (RepoScannerError ''No files were found in the repository.'')"
    by (simp add: analyzeRepositoryGraph_def)
next
  assume a: "in_files inp \<noteq> []
        \<and> (\<forall>f \<in> set (in_files inp).
              fe_ext f \<in> set [''.ts'', ''.tsx'', ''.js'', ''.jsx'', ''.mjs'', ''.cjs'']
                \<longrightarrow> (\<exists>m. fe_parse f = ParseFailed m))"
  then have "\<forall>f \<in> set (parseTargets_of inp). \<exists>m. fe_parse f = ParseFailed m"
    unfolding parseTargets_of_def SUPPORTED_EXTENSIONS_def by simp blast
  note fc = final_context_nothing_parsed [OF this, of completedAt]
  let ?ctx = "final_context inp completedAt"
  let ?r = "response_of inp ?ctx"
  note rs = response_nothing_parsed [of ?ctx inp, OF fc [THEN conjunct1] fc [THEN conjunct2, THEN conjunct1]
      fc [THEN conjunct2, THEN conjunct2, THEN conjunct1]]
  have 1: "analyzeRepositoryGraph inp completedAt = Inr ?r"
    using a by (simp add: analyzeRepositoryGraph_def)
  have 2: "\<forall>n \<in> set (files_nodes ?r). node_isDirectory n"
    unfolding rs(1) by (blast dest: directoryNodes_are_directories)
  have root: "''.'' \<in> set (js_set (map (\<lambda>rel. if rel = [] then ''.'' else rel) (in_directories inp) @ [''.'']))"
    by (simp add: js_set_def)
  have 3: "\<lparr>node_id = ''dir:.'', node_label = (if in_displayName inp \<noteq> [] then in_displayName inp else in_basename inp) @ ''/'',
               node_path = ''.'', node_isDirectory = True\<rparr> \<in> set (files_nodes ?r)"
    unfolding rs(1) by (rule root_directory_node [OF root])
  have 5: "''No supported source files were parsed. File graph includes nodes without edges.''
               \<in> set (warnings ?r)"
    unfolding rs(5) using fc by simp
  show "\<exists>r. analyzeRepositoryGraph inp completedAt = Inr r
          \<and> (\<forall>n \<in> set (files_nodes r). node_isDirectory n)
          \<and> \<lparr>node_id = ''dir:.'', node_label = (if in_displayName inp \<noteq> [] then in_displayName inp else in_basename inp) @ ''/'',
               node_path = ''.'', node_isDirectory = True\<rparr> \<in> set (files_nodes r)
          \<and> files_edges r = [] \<and> functions_nodes r = [] \<and> functions_edges r = []
          \<and> ''No supported source files were parsed. File graph includes nodes without edges.''
               \<in> set (warnings r)"
    by (intro exI [of _ ?r] conjI) (rule 1 2 3 rs(2) rs(3) rs(4) 5)+
qed

theorem no_files_raises:
  "analyzeRepositoryGraph no_files_input (\<lambda>rel. 0)
     = Inl (RepoScannerError ''No files were found in the repository.'')"
  by (simp add: analyzeRepositoryGraph_def no_files_input_def)

theorem pipeline_without_parsed_files_witness:
  "\<exists>r. analyzeRepositoryGraph unparsable_input (\<lambda>rel. 0) = Inr r
      \<and> files_edges r = [] \<and> functions_nodes r = [] \<and> functions_edges r = []
      \<and> ''No supported source files were parsed. File graph includes nodes without edges.''
           \<in> set (warnings r)"
proof -
  have "in_files unparsable_input \<noteq> []
        \<and> (\<forall>f \<in> set (in_files unparsable_input).
              fe_ext f \<in> set [''.ts'', ''.tsx'', ''.js'', ''.jsx'', ''.mjs'', ''.cjs'']
                \<longrightarrow> (\<exists>m. fe_parse f = ParseFailed m))"
    by (simp add: unparsable_input_def)
  with pipeline_without_parsed_files [of unparsable_input "\<lambda>rel. 0"] show ?thesis
    by blast
qed

subsection \<open>Edge maps\<close>

lemma map_of_update:
  "map_of (AList.update k v al) k' = (if k' = k then Some v else map_of al k')"
  by (simp add: update_conv')

lemma set_update_subset: "set (AList.update k v al) \<subseteq> insert (k, v) (set al)"
  by (induction al) auto

lemma length_update_existing:
  "map_of al k = Some v' \<Longrightarrow> length (AList.update k v al) = length al"
  by (induction al) (auto split: if_splits)

lemma set_static_edge_lookup:
  "map_of (set_static_edge s t m) k
     = (if k = edge_key s t then Some (static_edge s t (map_of m (edge_key s t))) else map_of m k)"
  by (simp add: set_static_edge_def Let_def map_of_update)

lemma upsert_llm_file_edge_lookup:
  "map_of (fst (upsert_llm_file_edge e m)) k
     = (if k = edge_key (lf_source e) (lf_target e)
        then (case map_of m k of
                Some old \<Rightarrow>
                  Some (if e_confidence old = None then old\<lparr>e_confidence := lf_confidence e\<rparr> else old)
              | None \<Rightarrow>
                  Some \<lparr>e_source = lf_source e, e_target = lf_target e,
                        e_kind = llm_file_kind (lf_relationship e), e_sourceType = S_llm,
                        e_confidence = lf_confidence e, e_reason = None\<rparr>)
        else map_of m k)"
  by (simp add: upsert_llm_file_edge_def Let_def map_of_update split: option.splits)

lemma upsert_llm_function_edge_lookup:
  "map_of (fst (upsert_llm_function_edge s t e m)) k
     = (if k = edge_key s t
        then (case map_of m k of
                Some old \<Rightarrow> Some (merge_llm_function_edge e old)
              | None \<Rightarrow>
                  Some \<lparr>e_source = s, e_target = t,
                        e_kind = llm_function_kind (lx_relationship e), e_sourceType = S_llm,
                        e_confidence = lx_confidence e, e_reason = lx_reason e\<rparr>)
        else map_of m k)"
  by (simp add: upsert_llm_function_edge_def Let_def map_of_update split: option.splits)

lemma merge_llm_function_edge_fields [simp]:
  "e_kind (merge_llm_function_edge e old) = e_kind old"
  "e_sourceType (merge_llm_function_edge e old) = e_sourceType old"
  "e_source (merge_llm_function_edge e old) = e_source old"
  "e_target (merge_llm_function_edge e old) = e_target old"
  by (simp_all add: merge_llm_function_edge_def Let_def)

lemma static_edge_fields [simp]:
  "e_source (static_edge s t ex) = s"
  "e_target (static_edge s t ex) = t"
  "e_kind (static_edge s t (Some old)) = e_kind old"
  "e_sourceType (static_edge s t (Some old)) = e_sourceType old"
  "e_confidence (static_edge s t (Some old)) = e_confidence old"
  "e_reason (static_edge s t (Some old)) = e_reason old"
  "e_kind (static_edge s t None) = K_imports"
  "e_sourceType (static_edge s t None) = S_static"
  by (simp_all add: static_edge_def)

lemma insert_edge_lookup_other:
  "k \<noteq> insertion_key op \<Longrightarrow> map_of (insert_edge op m) k = map_of m k"
  by (cases op)
     (simp_all add: set_static_edge_lookup upsert_llm_file_edge_lookup upsert_llm_function_edge_lookup)

lemma insert_edge_distinct:
  "distinct (map fst m) \<Longrightarrow> distinct (map fst (insert_edge op m))"
  by (cases op)
     (auto simp: set_static_edge_def upsert_llm_file_edge_def upsert_llm_function_edge_def Let_def
        distinct_update split: option.splits)

lemma keyed_update:
  "keyed m \<Longrightarrow> k = edge_key (e_source e) (e_target e) \<Longrightarrow> keyed (AList.update k e m)"
  using set_update_subset [of k e m] by (auto simp: keyed_def)

lemma insert_edge_keyed:
  assumes "keyed m" "distinct (map fst m)"
  shows "keyed (insert_edge op m)"
proof (cases op)
  case (StaticInsert s t)
  then show ?thesis using assms(1)
    by (simp add: set_static_edge_def Let_def keyed_update)
next
  case (LlmFileInsert e)
  show ?thesis
  proof (cases "map_of m (edge_key (lf_source e) (lf_target e))")
    case None
    then show ?thesis using assms(1) LlmFileInsert
      by (simp add: upsert_llm_file_edge_def Let_def keyed_update)
  next
    case (Some old)
    then have "(edge_key (lf_source e) (lf_target e), old) \<in> set m" by (rule map_of_SomeD)
    then have "edge_key (lf_source e) (lf_target e) = edge_key (e_source old) (e_target old)"
      using assms(1) by (auto simp: keyed_def)
    then show ?thesis using assms(1) LlmFileInsert Some
      by (simp add: upsert_llm_file_edge_def Let_def keyed_update)
  qed
next
  case (LlmFunctionInsert s t e)
  show ?thesis
  proof (cases "map_of m (edge_key s t)")
    case None
    then show ?thesis using assms(1) LlmFunctionInsert
      by (simp add: upsert_llm_function_edge_def Let_def keyed_update)
  next
    case (Some old)
    then have "(edge_key s t, old) \<in> set m" by (rule map_of_SomeD)
    then have "edge_key s t = edge_key (e_source old) (e_target old)"
      using assms(1) by (auto simp: keyed_def)
    then show ?thesis using assms(1) LlmFunctionInsert Some
      by (simp add: upsert_llm_function_edge_def Let_def keyed_update)
  qed
qed

lemma fold_insert_edge_keyed:
  "keyed m \<Longrightarrow> distinct (map fst m) \<Longrightarrow>
   keyed (fold insert_edge ops m) \<and> distinct (map fst (fold insert_edge ops m))"
  by (induction ops arbitrary: m) (simp_all add: insert_edge_keyed insert_edge_distinct)

lemma insert_edge_existing:
  assumes "map_of m (insertion_key op) = Some old"
  shows "\<exists>new. map_of (insert_edge op m) (insertion_key op) = Some new
           \<and> e_kind new = e_kind old \<and> e_sourceType new = e_sourceType old
           \<and> e_confidence new
               = (if e_confidence old \<noteq> None then e_confidence old
                  else (case op of
                          StaticInsert s t \<Rightarrow> None
                        | LlmFileInsert e \<Rightarrow> lf_confidence e
                        | LlmFunctionInsert s t e \<Rightarrow> lx_confidence e))
           \<and> e_reason new
               = (case op of
                    LlmFunctionInsert s t e \<Rightarrow>
                      (case lx_reason e of
                         None \<Rightarrow> e_reason old
                       | Some r \<Rightarrow>
                           (if r = [] then e_reason old
                            else (case e_reason old of
                                    None \<Rightarrow> Some r
                                  | Some r0 \<Rightarrow> (if r0 = [] then Some r else Some (r0 @ '' '' @ r)))))
                  | _ \<Rightarrow> e_reason old)"
proof (cases op)
  case (StaticInsert s t)
  then show ?thesis using assms by (simp add: set_static_edge_lookup)
next
  case (LlmFileInsert e)
  then show ?thesis using assms by (simp add: upsert_llm_file_edge_lookup)
next
  case (LlmFunctionInsert s t e)
  then show ?thesis using assms
    by (auto simp: upsert_llm_function_edge_lookup merge_llm_function_edge_def Let_def truthy_def
        split: option.splits)
qed

lemma insert_edge_length_existing:
  assumes "map_of m (insertion_key op) = Some old"
  shows "length (insert_edge op m) = length m"
  using assms
  by (cases op)
     (auto simp: set_static_edge_def upsert_llm_file_edge_def upsert_llm_function_edge_def Let_def
        length_update_existing)

lemma graph_edge_ids:
  "keyed m \<Longrightarrow> map ge_id (map (\<lambda>(key, edge). graph_edge edge) m) = map fst m"
  by (induction m) (auto simp: keyed_def graph_edge_def edge_key_def)

text \<open>
  Claim C3, as the code has it. Whatever insertions are made into an edge map that starts
  empty, no key \<^verbatim>\<open>source->target\<close> occurs twice, every edge is stored under the key of
  its own endpoints, and the emitted edge ids are distinct. An insertion under a key
  that is already there keeps the number of edges, every edge under another key, and the
  kind and the \<^verbatim>\<open>sourceType\<close> of the stored edge; it keeps a confidence that is there
  and fills in a missing one. The reason is kept by a static insertion and by a proposed
  file edge; a proposed function edge with a reason fills in a missing reason and
  \<^emph>\<open>appends\<close> its reason to one that is there. A static \<^verbatim>\<open>a->b\<close> edge followed by
  a proposed file edge for the same pair with a confidence is one edge, still static,
  with that confidence.
\<close>

theorem edge_insertion_dedup:
  "distinct (map fst (fold insert_edge ops []))
   \<and> (\<forall>(key, edge) \<in> set (fold insert_edge ops []). key = e_source edge @ ''->'' @ e_target edge)
   \<and> distinct (map ge_id (map (\<lambda>(key, edge). graph_edge edge) (fold insert_edge ops [])))
   \<and> (map_of edges (insertion_key op) = Some old \<longrightarrow>
        length (insert_edge op edges) = length edges
        \<and> (\<forall>key. key \<noteq> insertion_key op \<longrightarrow> map_of (insert_edge op edges) key = map_of edges key)
        \<and> (\<exists>new. map_of (insert_edge op edges) (insertion_key op) = Some new
              \<and> e_kind new = e_kind old \<and> e_sourceType new = e_sourceType old
              \<and> e_confidence new
                  = (if e_confidence old \<noteq> None then e_confidence old
                     else (case op of
                             StaticInsert s t \<Rightarrow> None
                           | LlmFileInsert e \<Rightarrow> lf_confidence e
                           | LlmFunctionInsert s t e \<Rightarrow> lx_confidence e))
              \<and> e_reason new
                  = (case op of
                       LlmFunctionInsert s t e \<Rightarrow>
                         (case lx_reason e of
                            None \<Rightarrow> e_reason old
                          | Some r \<Rightarrow>
                              (if r = [] then e_reason old
                               else (case e_reason old of
                                       None \<Rightarrow> Some r
                                     | Some r0 \<Rightarrow>
                                         (if r0 = [] then Some r else Some (r0 @ '' '' @ r)))))
                     | _ \<Rightarrow> e_reason old)))
   \<and> fold insert_edge
        [StaticInsert a b,
         LlmFileInsert \<lparr>lf_source = a, lf_target = b, lf_relationship = relationship,
                        lf_confidence = Some confidence\<rparr>] []
       = [(a @ ''->'' @ b,
           \<lparr>e_source = a, e_target = b, e_kind = K_imports, e_sourceType = S_static,
            e_confidence = Some confidence, e_reason = None\<rparr>)]"
proof -
  have k0: "keyed []" by (simp add: keyed_def)
  have kd: "keyed (fold insert_edge ops []) \<and> distinct (map fst (fold insert_edge ops []))"
    by (rule fold_insert_edge_keyed) (simp_all add: k0)
  have 1: "distinct (map fst (fold insert_edge ops []))" using kd by simp
  have 2: "\<forall>(key, edge) \<in> set (fold insert_edge ops []). key = e_source edge @ ''->'' @ e_target edge"
    using kd by (simp add: keyed_def edge_key_def)
  have 3: "distinct (map ge_id (map (\<lambda>(key, edge). graph_edge edge) (fold insert_edge ops [])))"
    using kd by (simp only: graph_edge_ids)
  have 4: "map_of edges (insertion_key op) = Some old \<longrightarrow>
        length (insert_edge op edges) = length edges
        \<and> (\<forall>key. key \<noteq> insertion_key op \<longrightarrow> map_of (insert_edge op edges) key = map_of edges key)
        \<and> (\<exists>new. map_of (insert_edge op edges) (insertion_key op) = Some new
              \<and> e_kind new = e_kind old \<and> e_sourceType new = e_sourceType old
              \<and> e_confidence new
                  = (if e_confidence old \<noteq> None then e_confidence old
                     else (case op of
                             StaticInsert s t \<Rightarrow> None
                           | LlmFileInsert e \<Rightarrow> lf_confidence e
                           | LlmFunctionInsert s t e \<Rightarrow> lx_confidence e))
              \<and> e_reason new
                  = (case op of
                       LlmFunctionInsert s t e \<Rightarrow>
                         (case lx_reason e of
                            None \<Rightarrow> e_reason old
                          | Some r \<Rightarrow>
                              (if r = [] then e_reason old
                               else (case e_reason old of
                                       None \<Rightarrow> Some r
                                     | Some r0 \<Rightarrow>
                                         (if r0 = [] then Some r else Some (r0 @ '' '' @ r)))))
                     | _ \<Rightarrow> e_reason old))"
    using insert_edge_existing [of edges op old] insert_edge_length_existing [of edges op old]
      insert_edge_lookup_other [of _ op edges]
    by blast
  have 5: "fold insert_edge
        [StaticInsert a b,
         LlmFileInsert \<lparr>lf_source = a, lf_target = b, lf_relationship = relationship,
                        lf_confidence = Some confidence\<rparr>] []
       = [(a @ ''->'' @ b,
           \<lparr>e_source = a, e_target = b, e_kind = K_imports, e_sourceType = S_static,
            e_confidence = Some confidence, e_reason = None\<rparr>)]"
    by (simp add: set_static_edge_def upsert_llm_file_edge_def static_edge_def edge_key_def Let_def)
  show ?thesis using 1 2 3 4 5 by (intro conjI)
qed

lemma upsert_llm_file_edge_has:
  "edge_has m k K T \<Longrightarrow> edge_has (fst (upsert_llm_file_edge e m)) k K T"
  by (auto simp: edge_has_def upsert_llm_file_edge_lookup)

lemma upsert_llm_function_edge_has:
  "edge_has m k K T \<Longrightarrow> edge_has (fst (upsert_llm_function_edge s t e m)) k K T"
  by (auto simp: edge_has_def upsert_llm_function_edge_lookup)

lemma llm_file_edge_fst:
  "fst (llm_file_edge P e (m, n))
     = (if lf_source e \<notin> P \<or> lf_target e \<notin> P then m else fst (upsert_llm_file_edge e m))"
  by (simp add: llm_file_edge_def split: prod.splits)

lemma llm_function_edge_edges:
  "ctx_functionEdges (fst (llm_function_edge L e (ctx, n)))
     = (case L (fst (lx_source e) @ '':'' @ snd (lx_source e)) of
          None \<Rightarrow> ctx_functionEdges ctx
        | Some sourceRef \<Rightarrow>
            (case L (fst (lx_target e) @ '':'' @ snd (lx_target e)) of
               None \<Rightarrow> ctx_functionEdges ctx
             | Some targetRef \<Rightarrow>
                 (case fn_at (ctx_files ctx) sourceRef of
                    None \<Rightarrow> ctx_functionEdges ctx
                  | Some sourceFn \<Rightarrow>
                      (case fn_at (ctx_files ctx) targetRef of
                         None \<Rightarrow> ctx_functionEdges ctx
                       | Some targetFn \<Rightarrow>
                           fst (upsert_llm_function_edge (fn_id sourceFn) (fn_id targetFn) e
                                  (ctx_functionEdges ctx))))))"
  by (simp add: llm_function_edge_def Let_def split: prod.splits option.splits)

lemma llm_function_edge_files:
  "ctx_files (fst (llm_function_edge L e (ctx, n)))
     = (case L (fst (lx_source e) @ '':'' @ snd (lx_source e)) of
          None \<Rightarrow> ctx_files ctx
        | Some sourceRef \<Rightarrow>
            (case L (fst (lx_target e) @ '':'' @ snd (lx_target e)) of
               None \<Rightarrow> ctx_files ctx
             | Some targetRef \<Rightarrow>
                 (case fn_at (ctx_files ctx) sourceRef of
                    None \<Rightarrow> ctx_files ctx
                  | Some sourceFn \<Rightarrow>
                      (case fn_at (ctx_files ctx) targetRef of
                         None \<Rightarrow> ctx_files ctx
                       | Some targetFn \<Rightarrow>
                           set_include targetRef (set_include sourceRef (ctx_files ctx))))))"
  by (simp add: llm_function_edge_def Let_def split: prod.splits option.splits)

lemma llm_function_edge_other_fields:
  "ctx_fileEdges (fst (llm_function_edge L e (ctx, n))) = ctx_fileEdges ctx"
  "ctx_warnings (fst (llm_function_edge L e (ctx, n))) = ctx_warnings ctx"
  "ctx_unresolved (fst (llm_function_edge L e (ctx, n))) = ctx_unresolved ctx"
  "ctx_fileSet (fst (llm_function_edge L e (ctx, n))) = ctx_fileSet ctx"
  "ctx_exportedFunctions (fst (llm_function_edge L e (ctx, n))) = ctx_exportedFunctions ctx"
  by (simp_all add: llm_function_edge_def Let_def split: prod.splits option.splits)

lemma llm_file_edge_has:
  "edge_has (fst acc) k K T \<Longrightarrow> edge_has (fst (llm_file_edge P e acc)) k K T"
  by (cases acc) (simp add: llm_file_edge_fst upsert_llm_file_edge_has)

lemma fold_llm_file_edge_has:
  "edge_has (fst acc) k K T \<Longrightarrow> edge_has (fst (fold (llm_file_edge P) es acc)) k K T"
  by (induction es arbitrary: acc) (simp_all add: llm_file_edge_has)

lemma llm_function_edge_has:
  "edge_has (ctx_functionEdges (fst acc)) k K T \<Longrightarrow>
   edge_has (ctx_functionEdges (fst (llm_function_edge L e acc))) k K T"
  by (cases acc)
     (simp add: llm_function_edge_edges upsert_llm_function_edge_has split: option.splits)

lemma fold_llm_function_edge_has:
  "edge_has (ctx_functionEdges (fst acc)) k K T \<Longrightarrow>
   edge_has (ctx_functionEdges (fst (fold (llm_function_edge L) es acc))) k K T"
  by (induction es arbitrary: acc) (simp_all add: llm_function_edge_has)

text \<open>
  Claim C5, as the code has it. A proposed edge that passes the endpoint check and whose
  key is new is stored with \<^verbatim>\<open>sourceType\<close> \<^verbatim>\<open>llm\<close>, and no later proposal changes that or
  its kind. The kind follows one rule for file edges and another for function edges: a
  file edge is \<^verbatim>\<open>imports\<close> when the lower-cased label is exactly \<^verbatim>\<open>imports\<close> and
  \<^verbatim>\<open>llm-reference\<close> otherwise; a function edge is \<^verbatim>\<open>invokes\<close> when the lower-cased
  label contains \<^verbatim>\<open>call\<close> or \<^verbatim>\<open>invoke\<close> and \<^verbatim>\<open>llm-reference\<close> otherwise.
\<close>

theorem llm_new_edge_kind:
  "(lf_source fileEdge \<in> filePaths \<and> lf_target fileEdge \<in> filePaths
      \<and> map_of edges (lf_source fileEdge @ ''->'' @ lf_target fileEdge) = None \<longrightarrow>
    (\<exists>new. map_of (fst (fold (llm_file_edge filePaths) (fileEdge # laterFileEdges) (edges, n)))
               (lf_source fileEdge @ ''->'' @ lf_target fileEdge) = Some new
          \<and> e_sourceType new = S_llm
          \<and> e_kind new
              = (if toLowerCase (lf_relationship fileEdge) = ''imports'' then K_imports
                 else K_llm_reference)))
   \<and> (functionLookup (fst (lx_source functionEdge) @ '':'' @ snd (lx_source functionEdge)) = Some sourceRef
      \<and> functionLookup (fst (lx_target functionEdge) @ '':'' @ snd (lx_target functionEdge)) = Some targetRef
      \<and> fn_at (ctx_files ctx) sourceRef = Some sourceFn
      \<and> fn_at (ctx_files ctx) targetRef = Some targetFn
      \<and> map_of (ctx_functionEdges ctx) (fn_id sourceFn @ ''->'' @ fn_id targetFn) = None \<longrightarrow>
    (\<exists>new. map_of (ctx_functionEdges
                     (fst (fold (llm_function_edge functionLookup)
                             (functionEdge # laterFunctionEdges) (ctx, m))))
               (fn_id sourceFn @ ''->'' @ fn_id targetFn) = Some new
          \<and> e_sourceType new = S_llm
          \<and> e_kind new
              = (if js_includes (toLowerCase (lx_relationship functionEdge)) ''call''
                    \<or> js_includes (toLowerCase (lx_relationship functionEdge)) ''invoke''
                 then K_invokes else K_llm_reference)))"
proof (intro conjI impI)
  assume a: "lf_source fileEdge \<in> filePaths \<and> lf_target fileEdge \<in> filePaths
      \<and> map_of edges (lf_source fileEdge @ ''->'' @ lf_target fileEdge) = None"
  let ?k = "lf_source fileEdge @ ''->'' @ lf_target fileEdge"
  let ?K = "if toLowerCase (lf_relationship fileEdge) = ''imports'' then K_imports else K_llm_reference"
  have "edge_has (fst (llm_file_edge filePaths fileEdge (edges, n))) ?k ?K S_llm"
    using a
    by (simp add: llm_file_edge_fst edge_has_def upsert_llm_file_edge_lookup edge_key_def
        llm_file_kind_def)
  then have "edge_has (fst (fold (llm_file_edge filePaths) laterFileEdges
                 (llm_file_edge filePaths fileEdge (edges, n)))) ?k ?K S_llm"
    by (rule fold_llm_file_edge_has)
  then show "\<exists>new. map_of (fst (fold (llm_file_edge filePaths) (fileEdge # laterFileEdges) (edges, n)))
               ?k = Some new \<and> e_sourceType new = S_llm \<and> e_kind new = ?K"
    by (auto simp: edge_has_def)
next
  assume a: "functionLookup (fst (lx_source functionEdge) @ '':'' @ snd (lx_source functionEdge)) = Some sourceRef
      \<and> functionLookup (fst (lx_target functionEdge) @ '':'' @ snd (lx_target functionEdge)) = Some targetRef
      \<and> fn_at (ctx_files ctx) sourceRef = Some sourceFn
      \<and> fn_at (ctx_files ctx) targetRef = Some targetFn
      \<and> map_of (ctx_functionEdges ctx) (fn_id sourceFn @ ''->'' @ fn_id targetFn) = None"
  let ?k = "fn_id sourceFn @ ''->'' @ fn_id targetFn"
  let ?K = "if js_includes (toLowerCase (lx_relationship functionEdge)) ''call''
                    \<or> js_includes (toLowerCase (lx_relationship functionEdge)) ''invoke''
                 then K_invokes else K_llm_reference"
  have "edge_has (ctx_functionEdges (fst (llm_function_edge functionLookup functionEdge (ctx, m)))) ?k ?K S_llm"
    using a
    by (simp add: llm_function_edge_edges edge_has_def upsert_llm_function_edge_lookup edge_key_def
        llm_function_kind_def)
  then have "edge_has (ctx_functionEdges (fst (fold (llm_function_edge functionLookup) laterFunctionEdges
                 (llm_function_edge functionLookup functionEdge (ctx, m))))) ?k ?K S_llm"
    by (rule fold_llm_function_edge_has)
  then show "\<exists>new. map_of (ctx_functionEdges
                     (fst (fold (llm_function_edge functionLookup)
                             (functionEdge # laterFunctionEdges) (ctx, m)))) ?k = Some new
          \<and> e_sourceType new = S_llm \<and> e_kind new = ?K"
    by (auto simp: edge_has_def)
qed

subsection \<open>The resolver returns known files\<close>

lemma find_in_set: "find P xs = Some x \<Longrightarrow> P x"
  by (induction xs) (auto split: if_splits)

lemma tryCandidates_sound:
  assumes "cache_ok fs cache" "tryCandidates fs cache base = (r, cache')"
  shows "cache_ok fs cache' \<and> (\<forall>x. r = Some x \<longrightarrow> x \<in> fs)"
proof -
  have "r = find (\<lambda>c. c \<in> fs) (candidates (normBase_of base))"
    using tryCandidates_fst [OF assms(1), of base] assms(2) by simp
  moreover have "cache_ok fs cache'"
    using tryCandidates_cache_ok [OF assms(1), of base] assms(2) by simp
  ultimately show ?thesis by (auto dest: find_in_set)
qed

lemma try_targets_sound:
  "cache_ok fs cache \<Longrightarrow> try_targets fs cache remainder targets = (r, cache') \<Longrightarrow>
   cache_ok fs cache' \<and> (\<forall>x. r = Some x \<longrightarrow> x \<in> fs)"
proof (induction targets arbitrary: cache)
  case Nil
  then show ?case by simp
next
  case (Cons t ts)
  obtain r1 c1 where t1: "tryCandidates fs cache (posix_normalize (posix_join [t, remainder])) = (r1, c1)"
    by (cases "tryCandidates fs cache (posix_normalize (posix_join [t, remainder]))")
  note s1 = tryCandidates_sound [OF Cons.prems(1) t1]
  show ?case
  proof (cases "truthy r1")
    case True
    then show ?thesis using Cons.prems(2) t1 s1 by simp
  next
    case False
    then have "try_targets fs c1 remainder ts = (r, cache')"
      using Cons.prems(2) t1 by simp
    then show ?thesis using Cons.IH s1 by blast
  qed
qed

lemma try_paths_sound:
  "cache_ok fs cache \<Longrightarrow> try_paths fs cache specifier paths = (r, cache') \<Longrightarrow>
   cache_ok fs cache' \<and> (\<forall>x. r = Some x \<longrightarrow> x \<in> fs)"
proof (induction paths arbitrary: cache)
  case Nil
  then show ?case by simp
next
  case (Cons entry entries)
  show ?case
  proof (cases "startsWith specifier (tp_prefix entry)")
    case False
    then show ?thesis using Cons by simp
  next
    case True
    let ?rem = "js_slice specifier (int (length (tp_prefix entry)))
                 (if length (tp_prefix entry) = length specifier then None
                  else Some (int (length specifier) - int (length (tp_suffix entry))))"
    obtain r1 c1 where t1: "try_targets fs cache ?rem (tp_targets entry) = (r1, c1)"
      by (cases "try_targets fs cache ?rem (tp_targets entry)")
    note s1 = try_targets_sound [OF Cons.prems(1) t1]
    show ?thesis
    proof (cases "truthy r1")
      case True
      then show ?thesis using Cons.prems(2) t1 s1 \<open>startsWith specifier (tp_prefix entry)\<close>
        by (simp add: Let_def)
    next
      case False
      then have "try_paths fs c1 specifier entries = (r, cache')"
        using Cons.prems(2) t1 \<open>startsWith specifier (tp_prefix entry)\<close> by (simp add: Let_def)
      then show ?thesis using Cons.IH s1 by blast
    qed
  qed
qed

lemma resolver_sound:
  assumes "cache_ok fs cache" "resolver fs paths cache fromPath specifier = (r, cache')"
  shows "cache_ok fs cache' \<and> (\<forall>x. r = Some x \<longrightarrow> x \<in> fs)"
proof (cases "specifier = []")
  case True
  then show ?thesis using assms by (simp add: resolver_def)
next
  case False
  show ?thesis
  proof (cases "startsWith specifier ''.''")
    case True
    then show ?thesis
      using assms False tryCandidates_sound [OF assms(1)] by (simp add: resolver_def Let_def)
  next
    case notrel: False
    obtain r1 c1 where p1: "try_paths fs cache specifier paths = (r1, c1)"
      by (cases "try_paths fs cache specifier paths")
    note s1 = try_paths_sound [OF assms(1) p1]
    obtain r2 c2 where p2: "tryCandidates fs c1 (posix_join [''.'', specifier]) = (r2, c2)"
      by (cases "tryCandidates fs c1 (posix_join [''.'', specifier])")
    note s2 = tryCandidates_sound [OF s1 [THEN conjunct1] p2]
    obtain r3 c3 where p3: "tryCandidates fs c2 (posix_join [''src'', specifier]) = (r3, c3)"
      by (cases "tryCandidates fs c2 (posix_join [''src'', specifier])")
    note s3 = tryCandidates_sound [OF s2 [THEN conjunct1] p3]
    have "resolver fs paths cache fromPath specifier
        = (if truthy r1 then (r1, c1) else if truthy r2 then (r2, c2)
           else if truthy r3 then (r3, c3) else (None, c3))"
      using False notrel p1 p2 p3 by (simp add: resolver_def Let_def)
    then show ?thesis using assms(2) s1 s2 s3 by (auto split: if_splits)
  qed
qed

subsection \<open>What each pass leaves alone\<close>

lemma update_file_keys [simp]: "map fst (update_file rel f files) = map fst files"
  by (induction files) (auto simp: update_file_def)

lemma update_file_lookup:
  "map_of (update_file rel f files) k
     = (if k = rel then map_option f (map_of files k) else map_of files k)"
  by (induction files) (auto simp: update_file_def)

lemma resolve_binding_frame:
  "ctx_files (snd (resolve_binding rel b ctx)) = ctx_files ctx"
  "ctx_fileSet (snd (resolve_binding rel b ctx)) = ctx_fileSet ctx"
  "ctx_paths (snd (resolve_binding rel b ctx)) = ctx_paths ctx"
  "ctx_functionEdges (snd (resolve_binding rel b ctx)) = ctx_functionEdges ctx"
  "ctx_exportedFunctions (snd (resolve_binding rel b ctx)) = ctx_exportedFunctions ctx"
  "ctx_warnings (snd (resolve_binding rel b ctx)) = ctx_warnings ctx"
  by (simp_all add: resolve_binding_def Let_def split: prod.splits option.splits)

lemma resolve_bindings_frame:
  "ctx_files (snd (resolve_bindings rel bs ctx)) = ctx_files ctx
   \<and> ctx_fileSet (snd (resolve_bindings rel bs ctx)) = ctx_fileSet ctx
   \<and> ctx_paths (snd (resolve_bindings rel bs ctx)) = ctx_paths ctx
   \<and> ctx_functionEdges (snd (resolve_bindings rel bs ctx)) = ctx_functionEdges ctx
   \<and> ctx_exportedFunctions (snd (resolve_bindings rel bs ctx)) = ctx_exportedFunctions ctx
   \<and> ctx_warnings (snd (resolve_bindings rel bs ctx)) = ctx_warnings ctx"
proof (induction bs arbitrary: ctx)
  case Nil
  then show ?case by simp
next
  case (Cons b bs)
  obtain b' ctx1 where s: "resolve_binding rel b ctx = (b', ctx1)"
    by (cases "resolve_binding rel b ctx")
  have "snd (resolve_bindings rel (b # bs) ctx) = snd (resolve_bindings rel bs ctx1)"
    using s by (simp split: prod.splits)
  moreover have "ctx1 = snd (resolve_binding rel b ctx)" using s by simp
  ultimately show ?case using Cons.IH [of ctx1] by (simp add: resolve_binding_frame)
qed

lemma static_file_edges_set:
  assumes "static_file_edges keys fs edges" "s \<in> keys" "t \<in> fs"
  shows "static_file_edges keys fs (set_static_edge s t edges)"
proof -
  have st: "e_sourceType (static_edge s t (map_of edges (edge_key s t))) = S_static"
  proof (cases "map_of edges (edge_key s t)")
    case None
    then show ?thesis by simp
  next
    case (Some old)
    then have "(edge_key s t, old) \<in> set edges" by (rule map_of_SomeD)
    then show ?thesis using assms(1) Some by (auto simp: static_file_edges_def)
  qed
  show ?thesis
    unfolding set_static_edge_def Let_def static_file_edges_def
    using set_update_subset [of "edge_key s t" "static_edge s t (map_of edges (edge_key s t))" edges]
      assms st
    by (auto simp: static_file_edges_def)
qed

lemma resolve_binding_inv:
  assumes "cache_ok (ctx_fileSet ctx) (ctx_cache ctx)"
    "static_file_edges keys (ctx_fileSet ctx) (ctx_fileEdges ctx)" "rel \<in> keys"
  shows "cache_ok (ctx_fileSet ctx) (ctx_cache (snd (resolve_binding rel b ctx)))
       \<and> static_file_edges keys (ctx_fileSet ctx) (ctx_fileEdges (snd (resolve_binding rel b ctx)))"
proof -
  obtain r c where rc: "resolver (ctx_fileSet ctx) (ctx_paths ctx) (ctx_cache ctx) rel (ib_source b) = (r, c)"
    by (cases "resolver (ctx_fileSet ctx) (ctx_paths ctx) (ctx_cache ctx) rel (ib_source b)")
  note s = resolver_sound [OF assms(1) rc]
  show ?thesis
  proof (cases r)
    case None
    then show ?thesis using rc s assms(2)
      by (simp add: resolve_binding_def Let_def truthy_def)
  next
    case (Some t)
    then have "t \<in> ctx_fileSet ctx" using s by simp
    then show ?thesis using rc s assms Some
      by (simp add: resolve_binding_def Let_def truthy_def static_file_edges_set)
  qed
qed

lemma resolve_bindings_inv:
  "cache_ok (ctx_fileSet ctx) (ctx_cache ctx) \<Longrightarrow>
   static_file_edges keys (ctx_fileSet ctx) (ctx_fileEdges ctx) \<Longrightarrow> rel \<in> keys \<Longrightarrow>
   cache_ok (ctx_fileSet ctx) (ctx_cache (snd (resolve_bindings rel bs ctx)))
   \<and> static_file_edges keys (ctx_fileSet ctx) (ctx_fileEdges (snd (resolve_bindings rel bs ctx)))"
proof (induction bs arbitrary: ctx)
  case Nil
  then show ?case by simp
next
  case (Cons b bs)
  obtain b' ctx1 where s: "resolve_binding rel b ctx = (b', ctx1)"
    by (cases "resolve_binding rel b ctx")
  have c1: "ctx1 = snd (resolve_binding rel b ctx)" using s by simp
  have fs: "ctx_fileSet ctx1 = ctx_fileSet ctx" by (simp add: c1 resolve_binding_frame)
  have inv1: "cache_ok (ctx_fileSet ctx1) (ctx_cache ctx1)
       \<and> static_file_edges keys (ctx_fileSet ctx1) (ctx_fileEdges ctx1)"
    unfolding fs unfolding c1 by (rule resolve_binding_inv [OF Cons.prems])
  have "snd (resolve_bindings rel (b # bs) ctx) = snd (resolve_bindings rel bs ctx1)"
    using s by (simp split: prod.splits)
  then show ?case using Cons.IH [of ctx1] inv1 Cons.prems(3) fs by simp
qed

lemma resolve_file_frame:
  "map fst (ctx_files (resolve_file rel ctx)) = map fst (ctx_files ctx)
   \<and> ctx_fileSet (resolve_file rel ctx) = ctx_fileSet ctx
   \<and> ctx_paths (resolve_file rel ctx) = ctx_paths ctx
   \<and> ctx_functionEdges (resolve_file rel ctx) = ctx_functionEdges ctx
   \<and> ctx_exportedFunctions (resolve_file rel ctx) = ctx_exportedFunctions ctx
   \<and> ctx_warnings (resolve_file rel ctx) = ctx_warnings ctx"
proof (cases "map_of (ctx_files ctx) rel")
  case None
  then show ?thesis by (simp add: resolve_file_def)
next
  case (Some a)
  obtain bs' ctx1 where s: "resolve_bindings rel (fa_imports a) ctx = (bs', ctx1)"
    by (cases "resolve_bindings rel (fa_imports a) ctx")
  have "ctx1 = snd (resolve_bindings rel (fa_imports a) ctx)" using s by simp
  then show ?thesis
    using resolve_bindings_frame [of rel "fa_imports a" ctx] Some s
    by (simp add: resolve_file_def)
qed

lemma resolve_file_inv:
  assumes "cache_ok (ctx_fileSet ctx) (ctx_cache ctx)"
    "static_file_edges keys (ctx_fileSet ctx) (ctx_fileEdges ctx)" "rel \<in> keys"
  shows "cache_ok (ctx_fileSet ctx) (ctx_cache (resolve_file rel ctx))
       \<and> static_file_edges keys (ctx_fileSet ctx) (ctx_fileEdges (resolve_file rel ctx))"
proof (cases "map_of (ctx_files ctx) rel")
  case None
  then show ?thesis using assms by (simp add: resolve_file_def)
next
  case (Some a)
  obtain bs' ctx1 where s: "resolve_bindings rel (fa_imports a) ctx = (bs', ctx1)"
    by (cases "resolve_bindings rel (fa_imports a) ctx")
  have "ctx1 = snd (resolve_bindings rel (fa_imports a) ctx)" using s by simp
  then show ?thesis
    using resolve_bindings_inv [OF assms, of "fa_imports a"] Some s
    by (simp add: resolve_file_def)
qed

lemma fold_resolve_file_inv:
  "cache_ok (ctx_fileSet ctx) (ctx_cache ctx) \<Longrightarrow>
   static_file_edges keys (ctx_fileSet ctx) (ctx_fileEdges ctx) \<Longrightarrow> set rels \<subseteq> keys \<Longrightarrow>
   cache_ok (ctx_fileSet ctx) (ctx_cache (fold resolve_file rels ctx))
   \<and> static_file_edges keys (ctx_fileSet ctx) (ctx_fileEdges (fold resolve_file rels ctx))
   \<and> map fst (ctx_files (fold resolve_file rels ctx)) = map fst (ctx_files ctx)
   \<and> ctx_fileSet (fold resolve_file rels ctx) = ctx_fileSet ctx
   \<and> ctx_functionEdges (fold resolve_file rels ctx) = ctx_functionEdges ctx
   \<and> ctx_exportedFunctions (fold resolve_file rels ctx) = ctx_exportedFunctions ctx
   \<and> ctx_warnings (fold resolve_file rels ctx) = ctx_warnings ctx"
proof (induction rels arbitrary: ctx)
  case Nil
  then show ?case by simp
next
  case (Cons rel rels)
  have "rel \<in> keys" using Cons.prems(3) by simp
  note i = resolve_file_inv [OF Cons.prems(1,2) this]
  show ?case
    using Cons.IH [of "resolve_file rel ctx"] i Cons.prems(3)
    by (simp add: resolve_file_frame)
qed

subsection \<open>Mutations that only set flags\<close>

lemma same_fn_refl [simp]: "same_fn f f"
  by (simp add: same_fn_def)

lemma same_fn_trans: "same_fn f g \<Longrightarrow> same_fn g h \<Longrightarrow> same_fn f h"
  unfolding same_fn_def
  by (metis FunctionInfo.surjective FunctionInfo.update_convs(8))

lemma same_call_refl [simp]: "same_call c c"
  by (simp add: same_call_def)

lemma same_call_trans: "same_call c d \<Longrightarrow> same_call d e \<Longrightarrow> same_call c e"
  unfolding same_call_def
  by (metis CallBinding.surjective CallBinding.update_convs(5))

lemma same_analysis_refl [simp]: "same_analysis a a"
  by (simp add: same_analysis_def list_all2_refl)

lemma same_analysis_trans: "same_analysis a b \<Longrightarrow> same_analysis b c \<Longrightarrow> same_analysis a c"
  unfolding same_analysis_def
  using list_all2_trans [of same_call same_call same_call] list_all2_trans [of same_fn same_fn same_fn]
    same_call_trans same_fn_trans
  by metis

lemma grows_refl [simp]: "grows files files"
  by (simp add: grows_def list_all2_refl)

lemma grows_trans:
  assumes "grows a b" "grows b c"
  shows "grows a c"
  using assms unfolding grows_def
  by (rule list_all2_trans [rotated 1]) (auto intro: same_analysis_trans)

lemma grows_keys: "grows files files' \<Longrightarrow> map fst files' = map fst files"
  unfolding grows_def by (induction rule: list_all2_induct) auto

lemma grows_lookup:
  "grows files files' \<Longrightarrow>
   (case map_of files k of
      None \<Rightarrow> map_of files' k = None
    | Some a \<Rightarrow> (\<exists>a'. map_of files' k = Some a' \<and> same_analysis a a'))"
  unfolding grows_def
  by (induction rule: list_all2_induct) (auto split: option.splits)

lemma grows_update_file:
  assumes "\<And>a. same_analysis a (g a)"
  shows "grows files (update_file rel g files)"
  unfolding grows_def update_file_def
  by (induction files) (auto simp: assms)

lemma same_fn_update_at:
  "list_all2 same_fn fns (update_at i (\<lambda>f. f\<lparr>fn_include := True\<rparr>) fns)"
  unfolding update_at_def
  by (auto simp: list_all2_conv_all_nth nth_list_update same_fn_def)

lemma same_call_update_at:
  "list_all2 same_call cs (update_at k (\<lambda>c. c\<lparr>cb_resolved := r\<rparr>) cs)"
  unfolding update_at_def
  by (auto simp: list_all2_conv_all_nth nth_list_update same_call_def)

lemma grows_set_include: "grows files (set_include ref files)"
  unfolding set_include_def
  by (rule grows_update_file) (simp add: same_analysis_def same_fn_update_at list_all2_refl)

lemma grows_set_call:
  "grows files
     (update_file rel (\<lambda>a. a\<lparr>fa_calls := update_at k (\<lambda>c. c\<lparr>cb_resolved := r\<rparr>) (fa_calls a)\<rparr>) files)"
  by (rule grows_update_file) (simp add: same_analysis_def same_call_update_at list_all2_refl)

subsection \<open>Included records\<close>

lemma all_functions_simps [simp]:
  "all_functions [] = []"
  "all_functions (p # files) = fa_functions (snd p) @ all_functions files"
  by (simp_all add: all_functions_def split: prod.splits)

lemma included_ids_simps:
  "included_ids [] = {}"
  "included_ids (p # files) = ids_incl (fa_functions (snd p)) \<union> included_ids files"
  unfolding included_ids_def ids_incl_def by auto

lemma included_ids_Union:
  "included_ids files = (\<Union>p \<in> set files. ids_incl (fa_functions (snd p)))"
  by (induction files) (simp_all add: included_ids_simps)

lemma same_fn_id: "same_fn f f' \<Longrightarrow> fn_id f' = fn_id f"
  unfolding same_fn_def
  by (metis FunctionInfo.select_convs(1) FunctionInfo.surjective FunctionInfo.update_convs(8))

lemma same_fn_ids_incl:
  assumes "list_all2 same_fn fns fns'"
  shows "ids_incl fns \<subseteq> ids_incl fns'"
proof
  fix x assume "x \<in> ids_incl fns"
  then obtain f where f: "f \<in> set fns" "fn_include f" "x = fn_id f" by (auto simp: ids_incl_def)
  then obtain i where i: "i < length fns" "fns ! i = f" by (auto simp: in_set_conv_nth)
  then have "same_fn f (fns' ! i)" "i < length fns'"
    using assms by (auto simp: list_all2_conv_all_nth)
  then have "fns' ! i \<in> set fns'" "fn_include (fns' ! i)" "fn_id (fns' ! i) = fn_id f"
    using f(2) same_fn_id [of f "fns' ! i"] by (auto simp: same_fn_def)
  then show "x \<in> ids_incl fns'" using f(3) unfolding ids_incl_def
    by (intro CollectI exI [of _ "fns' ! i"]) simp
qed

lemma grows_included_ids:
  "grows files files' \<Longrightarrow> included_ids files \<subseteq> included_ids files'"
  unfolding grows_def
proof (induction rule: list_all2_induct)
  case Nil
  then show ?case by simp
next
  case (Cons p ps p' ps')
  then have "list_all2 same_fn (fa_functions (snd p)) (fa_functions (snd p'))"
    by (simp add: same_analysis_def)
  then have "ids_incl (fa_functions (snd p)) \<subseteq> ids_incl (fa_functions (snd p'))"
    by (rule same_fn_ids_incl)
  moreover have "included_ids (p # ps) = ids_incl (fa_functions (snd p)) \<union> included_ids ps"
    "included_ids (p' # ps') = ids_incl (fa_functions (snd p')) \<union> included_ids ps'"
    by (simp_all add: included_ids_simps)
  ultimately show ?case using Cons.IH by blast
qed

lemma fn_at_grows:
  assumes "grows files files'" "fn_at files ref = Some f"
  shows "\<exists>f'. fn_at files' ref = Some f' \<and> same_fn f f'"
proof -
  from assms(2) obtain a where a: "map_of files (fst ref) = Some a" "snd ref < length (fa_functions a)"
    "f = fa_functions a ! snd ref"
    by (auto simp: fn_at_def split: option.splits if_splits)
  from grows_lookup [OF assms(1), of "fst ref"] a(1)
  obtain a' where a': "map_of files' (fst ref) = Some a'" "same_analysis a a'" by auto
  then have l: "list_all2 same_fn (fa_functions a) (fa_functions a')" by (simp add: same_analysis_def)
  then have "snd ref < length (fa_functions a')" "same_fn f (fa_functions a' ! snd ref)"
    using a(2,3) by (auto simp: list_all2_conv_all_nth)
  then show ?thesis using a' by (simp add: fn_at_def)
qed

lemma fn_at_included:
  assumes "fn_at files ref = Some f" "fn_include f"
  shows "fn_id f \<in> included_ids files"
proof -
  from assms(1) obtain a where a: "map_of files (fst ref) = Some a" "snd ref < length (fa_functions a)"
    "f = fa_functions a ! snd ref"
    by (auto simp: fn_at_def split: option.splits if_splits)
  then have m: "(fst ref, a) \<in> set files" and "f \<in> set (fa_functions a)"
    by (auto dest: map_of_SomeD)
  then have "fn_id f \<in> ids_incl (fa_functions (snd (fst ref, a)))"
    using assms(2) unfolding ids_incl_def by (intro CollectI exI [of _ f]) simp
  then show ?thesis unfolding included_ids_Union using m by (rule UN_I [rotated])
qed

lemma fn_at_set_include:
  assumes "fn_at files ref = Some f"
  shows "\<exists>f'. fn_at (set_include ref files) ref = Some f' \<and> fn_id f' = fn_id f \<and> fn_include f'"
proof -
  from assms(1) obtain a where a: "map_of files (fst ref) = Some a" "snd ref < length (fa_functions a)"
    "f = fa_functions a ! snd ref"
    by (auto simp: fn_at_def split: option.splits if_splits)
  then show ?thesis
    by (simp add: fn_at_def set_include_def update_file_lookup update_at_def)
qed

lemma set_include_included:
  assumes "fn_at files ref = Some f"
  shows "fn_id f \<in> included_ids (set_include ref files)"
proof -
  obtain f' where "fn_at (set_include ref files) ref = Some f'" "fn_id f' = fn_id f" "fn_include f'"
    using fn_at_set_include [OF assms] by blast
  then show ?thesis using fn_at_included [of "set_include ref files" ref f'] by simp
qed

lemma endpoints_in_mono: "endpoints_in ids edges \<Longrightarrow> ids \<subseteq> ids' \<Longrightarrow> endpoints_in ids' edges"
  by (auto simp: endpoints_in_def)

lemma endpoints_in_static:
  "endpoints_in ids edges \<Longrightarrow> s \<in> ids \<Longrightarrow> t \<in> ids \<Longrightarrow> endpoints_in ids (set_static_edge s t edges)"
  unfolding set_static_edge_def Let_def endpoints_in_def
  using set_update_subset [of "edge_key s t" "static_edge s t (map_of edges (edge_key s t))" edges]
  by auto

lemma find_index_Some:
  "find_index P xs = Some i \<Longrightarrow> i < length xs \<and> P (xs ! i)"
proof (induction xs arbitrary: i)
  case Nil
  then show ?case by simp
next
  case (Cons x xs)
  then show ?case by (cases "P x") (auto simp: nth_Cons split: nat.splits)
qed

lemma call_edge_eq:
  assumes "sm (cb_local call) = Some spec" "isb_resolved spec = Some resolved" "resolved \<noteq> []"
    "call_target ctx spec resolved = Some targetRef"
    "map_of (ctx_files ctx) rel = Some analysis"
    "find_index (\<lambda>fn. fn_id fn = cb_callerId call) (fa_functions analysis) = Some callerIx"
    "fn_at (ctx_files ctx) targetRef = Some targetFn"
  shows "call_edge rel sm k call ctx
      = ctx\<lparr>ctx_files :=
              update_file rel
                (\<lambda>a. a\<lparr>fa_calls := update_at k (\<lambda>c. c\<lparr>cb_resolved := Some resolved\<rparr>) (fa_calls a)\<rparr>)
                (set_include targetRef (set_include (rel, callerIx) (ctx_files ctx))),
            ctx_functionEdges :=
              set_static_edge (fn_id (fa_functions analysis ! callerIx)) (fn_id targetFn)
                (ctx_functionEdges ctx)\<rparr>"
  using assms(4) unfolding call_target_def call_edge_def
  by (simp add: assms(1,2,3,5,6,7) Let_def)

lemma call_edge_cases:
  "call_edge rel sm k call ctx = ctx
   \<or> (\<exists>files' t.
         call_edge rel sm k call ctx
           = ctx\<lparr>ctx_files := files',
                 ctx_functionEdges := set_static_edge (cb_callerId call) t (ctx_functionEdges ctx)\<rparr>
         \<and> grows (ctx_files ctx) files'
         \<and> cb_callerId call \<in> included_ids files' \<and> t \<in> included_ids files')"
proof (cases "\<exists>spec resolved targetRef analysis callerIx targetFn.
    sm (cb_local call) = Some spec \<and> isb_resolved spec = Some resolved \<and> resolved \<noteq> []
    \<and> call_target ctx spec resolved = Some targetRef
    \<and> map_of (ctx_files ctx) rel = Some analysis
    \<and> find_index (\<lambda>fn. fn_id fn = cb_callerId call) (fa_functions analysis) = Some callerIx
    \<and> fn_at (ctx_files ctx) targetRef = Some targetFn")
  case False
  have "call_edge rel sm k call ctx = ctx"
  proof (cases "sm (cb_local call)")
    case None
    then show ?thesis by (simp add: call_edge_def)
  next
    case spec: (Some spec)
    show ?thesis
    proof (cases "isb_resolved spec")
      case None
      then show ?thesis by (simp add: call_edge_def spec)
    next
      case res: (Some resolved)
      show ?thesis
      proof (cases "resolved = []")
        case True
        then show ?thesis by (simp add: call_edge_def spec res)
      next
        case ne: False
        show ?thesis
        proof (cases "call_target ctx spec resolved")
          case None
          then show ?thesis unfolding call_target_def
            by (simp add: call_edge_def spec res ne)
        next
          case tgt: (Some targetRef)
          show ?thesis
          proof (cases "map_of (ctx_files ctx) rel")
            case None
            then show ?thesis using tgt by (simp add: call_target_def call_edge_def spec res ne)
          next
            case an: (Some analysis)
            show ?thesis
            proof (cases "find_index (\<lambda>fn. fn_id fn = cb_callerId call) (fa_functions analysis)")
              case None
              then show ?thesis using tgt by (simp add: call_target_def call_edge_def spec res ne an)
            next
              case ci: (Some callerIx)
              show ?thesis
              proof (cases "fn_at (ctx_files ctx) targetRef")
                case None
                then show ?thesis using tgt by (simp add: call_target_def call_edge_def spec res ne an ci)
              next
                case (Some targetFn)
                then show ?thesis using False spec res ne tgt an ci by blast
              qed
            qed
          qed
        qed
      qed
    qed
  qed
  then show ?thesis by simp
next
  case True
  then obtain spec resolved targetRef analysis callerIx targetFn where
    h: "sm (cb_local call) = Some spec" "isb_resolved spec = Some resolved" "resolved \<noteq> []"
       "call_target ctx spec resolved = Some targetRef"
       "map_of (ctx_files ctx) rel = Some analysis"
       "find_index (\<lambda>fn. fn_id fn = cb_callerId call) (fa_functions analysis) = Some callerIx"
       "fn_at (ctx_files ctx) targetRef = Some targetFn"
    by blast
  let ?caller = "fa_functions analysis ! callerIx"
  let ?files1 = "set_include (rel, callerIx) (ctx_files ctx)"
  let ?files2 = "set_include targetRef ?files1"
  let ?files3 = "update_file rel
       (\<lambda>a. a\<lparr>fa_calls := update_at k (\<lambda>c. c\<lparr>cb_resolved := Some resolved\<rparr>) (fa_calls a)\<rparr>) ?files2"
  have ci: "callerIx < length (fa_functions analysis)" "fn_id ?caller = cb_callerId call"
    using find_index_Some [OF h(6)] by auto
  have eq: "call_edge rel sm k call ctx
      = ctx\<lparr>ctx_files := ?files3,
            ctx_functionEdges := set_static_edge (cb_callerId call) (fn_id targetFn) (ctx_functionEdges ctx)\<rparr>"
    using call_edge_eq [where sm = sm and call = call and ctx = ctx and rel = rel and k = k, OF h]
      ci(2) by simp
  have fc: "fn_at (ctx_files ctx) (rel, callerIx) = Some ?caller"
    using h(5) ci by (simp add: fn_at_def)
  have g1: "grows (ctx_files ctx) ?files1" by (rule grows_set_include)
  have g2: "grows ?files1 ?files2" by (rule grows_set_include)
  have g3: "grows ?files2 ?files3" by (rule grows_set_call)
  have g: "grows (ctx_files ctx) ?files3" using g1 g2 g3 grows_trans by blast
  have "fn_id ?caller \<in> included_ids ?files1" by (rule set_include_included [OF fc])
  then have c3: "cb_callerId call \<in> included_ids ?files3"
    using grows_included_ids [OF g2] grows_included_ids [OF g3] ci(2) by auto
  obtain tf1 where tf1: "fn_at ?files1 targetRef = Some tf1" "same_fn targetFn tf1"
    using fn_at_grows [OF g1 h(7)] by blast
  have "fn_id tf1 \<in> included_ids ?files2" by (rule set_include_included [OF tf1(1)])
  then have t3: "fn_id targetFn \<in> included_ids ?files3"
    using grows_included_ids [OF g3] same_fn_id [OF tf1(2)] by auto
  show ?thesis using eq g c3 t3 by blast
qed

lemma call_edge_inv:
  assumes "edges_pass_inv ctx0 ctx"
  shows "edges_pass_inv ctx0 (call_edge rel sm k call ctx)"
  using call_edge_cases [of rel sm k call ctx]
proof
  assume "call_edge rel sm k call ctx = ctx"
  then show ?thesis using assms by simp
next
  assume "\<exists>files' t.
         call_edge rel sm k call ctx
           = ctx\<lparr>ctx_files := files',
                 ctx_functionEdges := set_static_edge (cb_callerId call) t (ctx_functionEdges ctx)\<rparr>
         \<and> grows (ctx_files ctx) files'
         \<and> cb_callerId call \<in> included_ids files' \<and> t \<in> included_ids files'"
  then obtain files' t where
    e: "call_edge rel sm k call ctx
           = ctx\<lparr>ctx_files := files',
                 ctx_functionEdges := set_static_edge (cb_callerId call) t (ctx_functionEdges ctx)\<rparr>"
    and g: "grows (ctx_files ctx) files'"
    and i: "cb_callerId call \<in> included_ids files'" "t \<in> included_ids files'"
    by blast
  have "endpoints_in (included_ids files') (ctx_functionEdges ctx)"
    using assms grows_included_ids [OF g] by (auto simp: edges_pass_inv_def intro: endpoints_in_mono)
  then have "endpoints_in (included_ids files')
      (set_static_edge (cb_callerId call) t (ctx_functionEdges ctx))"
    using i by (rule endpoints_in_static)
  moreover have "grows (ctx_files ctx0) files'"
    using assms g grows_trans by (auto simp: edges_pass_inv_def)
  ultimately show ?thesis using assms unfolding e by (simp add: edges_pass_inv_def)
qed

lemma collect_calls_inv:
  "edges_pass_inv ctx0 ctx \<Longrightarrow> edges_pass_inv ctx0 (collect_calls rel sm k calls ctx)"
  by (induction calls arbitrary: k ctx) (simp_all add: call_edge_inv)

lemma collect_file_inv:
  "edges_pass_inv ctx0 ctx \<Longrightarrow> edges_pass_inv ctx0 (collect_file rel ctx)"
  by (simp add: collect_file_def collect_calls_inv split: option.splits)

lemma fold_collect_file_inv:
  "edges_pass_inv ctx0 ctx \<Longrightarrow> edges_pass_inv ctx0 (fold collect_file rels ctx)"
  by (induction rels arbitrary: ctx) (simp_all add: collect_file_inv)

lemma collectFunctionEdges_inv:
  assumes "endpoints_in (included_ids (ctx_files ctx)) (ctx_functionEdges ctx)"
  shows "edges_pass_inv ctx (collectFunctionEdges ctx)"
  unfolding collectFunctionEdges_def
  by (rule fold_collect_file_inv) (simp add: edges_pass_inv_def assms)

subsection \<open>The enrichment pass\<close>

lemma endpoints_in_upsert_function:
  assumes "endpoints_in ids edges" "s \<in> ids" "t \<in> ids"
  shows "endpoints_in ids (fst (upsert_llm_function_edge s t e edges))"
proof (cases "map_of edges (edge_key s t)")
  case None
  then show ?thesis
    using assms set_update_subset [of "edge_key s t" _ edges]
    unfolding upsert_llm_function_edge_def Let_def endpoints_in_def
    by (simp add: subset_iff) fastforce
next
  case (Some old)
  then have "(edge_key s t, old) \<in> set edges" by (rule map_of_SomeD)
  then have o: "e_source old \<in> ids" "e_target old \<in> ids"
    using assms(1) by (auto simp: endpoints_in_def)
  show ?thesis
    using assms(1) o Some set_update_subset [of "edge_key s t" "merge_llm_function_edge e old" edges]
    unfolding upsert_llm_function_edge_def Let_def endpoints_in_def
    by (simp add: subset_iff) fastforce
qed

lemma llm_function_edge_inv:
  assumes "edges_pass_inv ctx0 (fst acc)"
  shows "edges_pass_inv ctx0 (fst (llm_function_edge L e acc))"
proof -
  obtain ctx n where acc: "acc = (ctx, n)" by (cases acc)
  let ?sk = "fst (lx_source e) @ '':'' @ snd (lx_source e)"
  let ?tk = "fst (lx_target e) @ '':'' @ snd (lx_target e)"
  show ?thesis
  proof (cases "\<exists>sref tref sfn tfn. L ?sk = Some sref \<and> L ?tk = Some tref
      \<and> fn_at (ctx_files ctx) sref = Some sfn \<and> fn_at (ctx_files ctx) tref = Some tfn")
    case False
    then have "fst (llm_function_edge L e (ctx, n)) = ctx"
      by (auto simp: llm_function_edge_def Let_def split: option.splits)
    then show ?thesis using assms acc by simp
  next
    case True
    then obtain sref tref sfn tfn where h: "L ?sk = Some sref" "L ?tk = Some tref"
      "fn_at (ctx_files ctx) sref = Some sfn" "fn_at (ctx_files ctx) tref = Some tfn"
      by blast
    let ?files1 = "set_include sref (ctx_files ctx)"
    let ?files2 = "set_include tref ?files1"
    let ?edges = "fst (upsert_llm_function_edge (fn_id sfn) (fn_id tfn) e (ctx_functionEdges ctx))"
    have f: "ctx_files (fst (llm_function_edge L e (ctx, n))) = ?files2"
      using h by (simp add: llm_function_edge_files)
    have ed: "ctx_functionEdges (fst (llm_function_edge L e (ctx, n))) = ?edges"
      using h by (simp add: llm_function_edge_edges)
    have g1: "grows (ctx_files ctx) ?files1" by (rule grows_set_include)
    have g2: "grows ?files1 ?files2" by (rule grows_set_include)
    have g: "grows (ctx_files ctx) ?files2" using g1 g2 grows_trans by blast
    have "fn_id sfn \<in> included_ids ?files1" by (rule set_include_included [OF h(3)])
    then have s2: "fn_id sfn \<in> included_ids ?files2" using grows_included_ids [OF g2] by blast
    obtain tf1 where tf1: "fn_at ?files1 tref = Some tf1" "same_fn tfn tf1"
      using fn_at_grows [OF g1 h(4)] by blast
    have "fn_id tf1 \<in> included_ids ?files2" by (rule set_include_included [OF tf1(1)])
    then have t2: "fn_id tfn \<in> included_ids ?files2" using same_fn_id [OF tf1(2)] by simp
    have "endpoints_in (included_ids ?files2) (ctx_functionEdges ctx)"
      using assms acc grows_included_ids [OF g]
      by (auto simp: edges_pass_inv_def intro: endpoints_in_mono)
    then have e2: "endpoints_in (included_ids ?files2) ?edges"
      using s2 t2 by (rule endpoints_in_upsert_function)
    have g0: "grows (ctx_files ctx0) ?files2"
      using assms acc g grows_trans by (auto simp: edges_pass_inv_def)
    show ?thesis
      unfolding acc edges_pass_inv_def f ed
      using g0 e2 assms acc by (simp add: edges_pass_inv_def llm_function_edge_other_fields)
  qed
qed

lemma fold_llm_function_edge_inv:
  "edges_pass_inv ctx0 (fst acc) \<Longrightarrow>
   edges_pass_inv ctx0 (fst (fold (llm_function_edge L) es acc))"
  by (induction es arbitrary: acc) (simp_all add: llm_function_edge_inv)

lemma static_file_edges_ok:
  "static_file_edges keys fs edges \<Longrightarrow> file_edges_ok keys fs edges"
  by (auto simp: static_file_edges_def file_edges_ok_def)

lemma file_edges_ok_upsert:
  assumes "file_edges_ok keys fs edges" "lf_source e \<in> keys" "lf_target e \<in> keys"
  shows "file_edges_ok keys fs (fst (upsert_llm_file_edge e edges))"
proof (cases "map_of edges (edge_key (lf_source e) (lf_target e))")
  case None
  then show ?thesis
    using assms set_update_subset [of "edge_key (lf_source e) (lf_target e)" _ edges]
    unfolding upsert_llm_file_edge_def Let_def file_edges_ok_def
    by (simp add: subset_iff) fastforce
next
  case (Some old)
  then have "(edge_key (lf_source e) (lf_target e), old) \<in> set edges" by (rule map_of_SomeD)
  then have o: "e_source old \<in> keys" "e_sourceType old = S_static \<longrightarrow> e_target old \<in> fs"
    "e_sourceType old = S_llm \<longrightarrow> e_target old \<in> keys"
    using assms(1) by (auto simp: file_edges_ok_def)
  show ?thesis
    using assms(1) o Some
      set_update_subset [of "edge_key (lf_source e) (lf_target e)"
        "old\<lparr>e_confidence := lf_confidence e\<rparr>" edges]
    unfolding upsert_llm_file_edge_def Let_def file_edges_ok_def
    by (simp add: subset_iff) fastforce
qed

lemma llm_file_edge_ok:
  "file_edges_ok keys fs (fst acc) \<Longrightarrow> file_edges_ok keys fs (fst (llm_file_edge keys e acc))"
  by (cases acc) (simp add: llm_file_edge_fst file_edges_ok_upsert)

lemma fold_llm_file_edge_ok:
  "file_edges_ok keys fs (fst acc) \<Longrightarrow>
   file_edges_ok keys fs (fst (fold (llm_file_edge keys) es acc))"
  by (induction es arbitrary: acc) (simp_all add: llm_file_edge_ok)

lemma merge_llm_result_enriched:
  assumes "endpoints_in (included_ids (ctx_files ctx)) (ctx_functionEdges ctx)"
    "file_edges_ok (set (map fst (ctx_files ctx))) (ctx_fileSet ctx) (ctx_fileEdges ctx)"
  shows "enriched ctx (merge_llm_result result ctx)"
proof -
  let ?keys = "set (map fst (ctx_files ctx))"
  obtain fe nf where fe: "fold (llm_file_edge ?keys) (lr_fileEdges result) (ctx_fileEdges ctx, 0) = (fe, nf)"
    by (cases "fold (llm_file_edge ?keys) (lr_fileEdges result) (ctx_fileEdges ctx, 0)")
  have feok: "file_edges_ok ?keys (ctx_fileSet ctx) fe"
    using fold_llm_file_edge_ok [of ?keys "ctx_fileSet ctx" "(ctx_fileEdges ctx, 0)" "lr_fileEdges result"]
      assms(2) fe by simp
  let ?ctx1 = "ctx\<lparr>ctx_fileEdges := fe\<rparr>"
  let ?L = "functionLookup_of (ctx_files ?ctx1)"
  obtain ctx2 nx where c2: "fold (llm_function_edge ?L) (lr_functionEdges result) (?ctx1, 0) = (ctx2, nx)"
    by (cases "fold (llm_function_edge ?L) (lr_functionEdges result) (?ctx1, 0)")
  have "edges_pass_inv ?ctx1 (fst (?ctx1, 0::nat))"
    using assms(1) by (simp add: edges_pass_inv_def)
  then have "edges_pass_inv ?ctx1 (fst (fold (llm_function_edge ?L) (lr_functionEdges result) (?ctx1, 0)))"
    by (rule fold_llm_function_edge_inv)
  then have inv: "edges_pass_inv ?ctx1 ctx2" using c2 by simp
  have "\<exists>ws. merge_llm_result result ctx = ctx2\<lparr>ctx_warnings := ws\<rparr>"
    using fe c2 by (auto simp: merge_llm_result_def Let_def)
  then obtain ws where m: "merge_llm_result result ctx = ctx2\<lparr>ctx_warnings := ws\<rparr>" by blast
  show ?thesis
    unfolding m enriched_def using inv feok by (simp add: edges_pass_inv_def)
qed

lemma enrich_enriched:
  assumes "endpoints_in (included_ids (ctx_files ctx)) (ctx_functionEdges ctx)"
    "file_edges_ok (set (map fst (ctx_files ctx))) (ctx_fileSet ctx) (ctx_fileEdges ctx)"
  shows "enriched ctx (enrichRelationshipsWithLLM hasApiKey service ctx)"
proof -
  have r: "enriched ctx (ctx\<lparr>ctx_warnings := ws\<rparr>)" for ws
    using assms by (simp add: enriched_def)
  have r0: "enriched ctx ctx" using assms by (simp add: enriched_def)
  show ?thesis
    unfolding enrichRelationshipsWithLLM_def
    using r r0 merge_llm_result_enriched [OF assms]
    by (auto split: sum.splits)
qed

lemma collectUnresolvedWarnings_fields [simp]:
  "ctx_files (collectUnresolvedWarnings ctx) = ctx_files ctx"
  "ctx_fileEdges (collectUnresolvedWarnings ctx) = ctx_fileEdges ctx"
  "ctx_functionEdges (collectUnresolvedWarnings ctx) = ctx_functionEdges ctx"
  "ctx_fileSet (collectUnresolvedWarnings ctx) = ctx_fileSet ctx"
  by (simp_all add: collectUnresolvedWarnings_def)

subsection \<open>Function nodes\<close>

lemma fold_push_function_node:
  "fold push_function_node fns (nodes, fnode_id ` set nodes) = (nodes', seen') \<Longrightarrow>
   seen' = fnode_id ` set nodes' \<and> seen' = fnode_id ` set nodes \<union> ids_incl fns"
proof (induction fns arbitrary: nodes)
  case Nil
  then show ?case by (auto simp: ids_incl_def)
next
  case (Cons fn fns)
  show ?case
  proof (cases "fn_include fn \<and> fn_id fn \<notin> fnode_id ` set nodes")
    case True
    then have "push_function_node fn (nodes, fnode_id ` set nodes)
        = (nodes @ [function_node fn], fnode_id ` set (nodes @ [function_node fn]))"
      by (simp add: push_function_node_def function_node_def)
    then have "fold push_function_node fns (nodes @ [function_node fn], fnode_id ` set (nodes @ [function_node fn]))
        = (nodes', seen')"
      using Cons.prems by simp
    from Cons.IH [OF this] show ?thesis using True
      by (auto simp: ids_incl_def function_node_def)
  next
    case False
    then have "push_function_node fn (nodes, fnode_id ` set nodes) = (nodes, fnode_id ` set nodes)"
      by (auto simp: push_function_node_def)
    then have "fold push_function_node fns (nodes, fnode_id ` set nodes) = (nodes', seen')"
      using Cons.prems by simp
    from Cons.IH [OF this] show ?thesis using False
      by (auto simp: ids_incl_def)
  qed
qed

lemma fold_files_function_nodes:
  "fold (\<lambda>(relPath, analysis) acc. fold push_function_node (fa_functions analysis) acc)
     files (nodes, fnode_id ` set nodes) = (nodes', seen') \<Longrightarrow>
   seen' = fnode_id ` set nodes' \<and> seen' = fnode_id ` set nodes \<union> included_ids files"
proof (induction files arbitrary: nodes)
  case Nil
  then show ?case by (auto simp: included_ids_simps)
next
  case (Cons p files)
  obtain n1 s1 where s: "fold push_function_node (fa_functions (snd p)) (nodes, fnode_id ` set nodes) = (n1, s1)"
    by (cases "fold push_function_node (fa_functions (snd p)) (nodes, fnode_id ` set nodes)")
  note a = fold_push_function_node [OF s]
  have "fold (\<lambda>(relPath, analysis) acc. fold push_function_node (fa_functions analysis) acc)
     files (n1, fnode_id ` set n1) = (nodes', seen')"
    using Cons.prems s a by (simp split: prod.splits)
  from Cons.IH [OF this] show ?case using a by (auto simp: included_ids_simps)
qed

lemma function_node_ids:
  "fnode_id ` set (functionNodes_of files) = included_ids files"
proof -
  let ?r = "fold (\<lambda>(relPath, analysis) acc. fold push_function_node (fa_functions analysis) acc)
     files ([], fnode_id ` set ([] :: FunctionNode list))"
  have s: "?r = (fst ?r, snd ?r)" by simp
  from fold_files_function_nodes [OF s]
  have "fnode_id ` set (fst ?r) = included_ids files" by auto
  then show ?thesis by (simp add: functionNodes_of_def)
qed

subsection \<open>Exported records are included\<close>

lemma exp_incl_Nil [simp]: "exp_incl []"
  by (simp add: exp_incl_def)

lemma exp_incl_append:
  "exp_incl (fns @ gns) = (exp_incl fns \<and> exp_incl gns)"
  by (auto simp: exp_incl_def)

lemma exp_incl_single: "exp_incl [fn] = (fn_isExported fn \<longrightarrow> fn_include fn)"
  by (simp add: exp_incl_def)

lemma exp_incl_update_at:
  assumes "exp_incl fns" "\<And>f. fn_isExported (g f) \<longrightarrow> fn_include (g f)"
  shows "exp_incl (update_at i g fns)"
  using assms set_update_subset_insert [of fns i "g (fns ! i)"]
  unfolding update_at_def exp_incl_def by (auto simp: subset_iff)

lemma exp_incl_set_include:
  assumes "exp_incl fns"
  shows "exp_incl (update_at i (\<lambda>f. f\<lparr>fn_include := True\<rparr>) fns)"
  by (rule exp_incl_update_at [OF assms]) simp

lemma registerFunction_exp_incl:
  "exp_incl (as_functions st) \<Longrightarrow>
   exp_incl (as_functions (snd (registerFunction rel node name kind exportName isExported loc st)))"
  by (simp add: registerFunction_def Let_def exp_incl_append exp_incl_single)

lemma ensureModuleInvoker_exp_incl:
  "exp_incl (as_functions st) \<Longrightarrow> exp_incl (as_functions (snd (ensureModuleInvoker rel st)))"
  by (simp add: ensureModuleInvoker_def Let_def exp_incl_append exp_incl_single split: option.splits)

lemma markExport_exp_incl:
  "exp_incl (as_functions st) \<Longrightarrow> exp_incl (as_functions (markExport info name st))"
  by (cases info) (simp_all add: markExport_def exp_incl_update_at)

lemma lookup_or_register_exp_incl:
  "exp_incl (as_functions st) \<Longrightarrow>
   exp_incl (as_functions (snd (lookup_or_register rel node name kind exportName isExported st)))"
  by (simp add: lookup_or_register_def registerFunction_exp_incl split: option.splits)

lemma call_caller_exp_incl:
  assumes "exp_incl (as_functions st)"
  shows "exp_incl (as_functions (snd (call_caller rel funcParent st)))"
proof (cases funcParent)
  case None
  then show ?thesis using ensureModuleInvoker_exp_incl [OF assms, of rel]
    by (simp add: call_caller_def case_prod_beta)
next
  case (Some fp)
  let ?reg = "case as_functionNodeLookup st (n_id fp) of
                   Some i \<Rightarrow> (i, st)
                 | None \<Rightarrow>
                     (case inferFunctionName fp of
                        Some name \<Rightarrow>
                          registerFunction rel (n_id fp) name (inferFunctionKind fp) None False
                            (n_loc fp) st
                      | None \<Rightarrow>
                          registerFunction rel (n_id fp)
                            (''anonymous_'' @ string_of_nat (as_functionCounter st))
                            (inferFunctionKind fp) None False (n_loc fp)
                            (st\<lparr>as_functionCounter := Suc (as_functionCounter st)\<rparr>))"
  have "exp_incl (as_functions (st\<lparr>as_functionCounter := Suc (as_functionCounter st)\<rparr>))"
    using assms by simp
  then have r: "exp_incl (as_functions (snd ?reg))"
    using assms by (auto split: option.splits intro: registerFunction_exp_incl)
  have "as_functions (snd (call_caller rel funcParent st))
      = update_at (fst ?reg) (\<lambda>f. f\<lparr>fn_include := True\<rparr>) (as_functions (snd ?reg))"
    using Some by (simp add: call_caller_def Let_def case_prod_beta)
  then show ?thesis using exp_incl_set_include [OF r] by simp
qed

lemma visit_CallExpression_exp_incl:
  assumes "exp_incl (as_functions st)"
  shows "exp_incl (as_functions (visit_CallExpression rel callee binding funcParent st))"
  using assms call_caller_exp_incl [OF assms, of rel funcParent]
  by (auto simp: visit_CallExpression_def Let_def case_prod_beta
      split: option.splits scope_binding.splits)

lemma visit_ImportDeclaration_functions [simp]:
  "as_functions (visit_ImportDeclaration specs source st) = as_functions st"
  by (simp add: visit_ImportDeclaration_def Let_def)

lemma visit_FunctionDeclaration_exp_incl:
  assumes "exp_incl (as_functions st)"
  shows "exp_incl (as_functions (visit_FunctionDeclaration rel node b st))"
  using assms
  by (simp add: visit_FunctionDeclaration_def case_prod_beta registerFunction_exp_incl
      markExport_exp_incl split: option.splits)

lemma visit_ArrowFunctionExpression_exp_incl:
  assumes "exp_incl (as_functions st)"
  shows "exp_incl (as_functions (visit_ArrowFunctionExpression rel node pe st))"
  using assms
  by (simp add: visit_ArrowFunctionExpression_def Let_def case_prod_beta registerFunction_exp_incl
      markExport_exp_incl)

lemma visit_FunctionExpression_exp_incl:
  assumes "exp_incl (as_functions st)"
  shows "exp_incl (as_functions (visit_FunctionExpression rel node pe st))"
  using assms
  by (simp add: visit_FunctionExpression_def Let_def case_prod_beta registerFunction_exp_incl
      markExport_exp_incl)

lemma visit_ClassMethod_exp_incl:
  assumes "exp_incl (as_functions st)"
  shows "exp_incl (as_functions (visit_ClassMethod rel key node exportedClass st))"
proof -
  have "exp_incl (update_at i (\<lambda>f. f\<lparr>fn_exportName := Some en, fn_include := True\<rparr>) fns)"
    if "exp_incl fns" for i en fns
    by (rule exp_incl_update_at [OF that]) simp
  then show ?thesis using assms
    by (simp add: visit_ClassMethod_def case_prod_beta registerFunction_exp_incl split: option.splits)
qed

lemma export_declarators_exp_incl:
  "exp_incl (as_functions st) \<Longrightarrow> exp_incl (as_functions (export_declarators rel decls st))"
proof (induction rel decls st rule: export_declarators.induct)
  case (1 relPath st)
  then show ?case by simp
next
  case (2 relPath name init decls st)
  show ?case
  proof (cases "n_type init = FunctionExpression \<or> n_type init = ArrowFunctionExpression")
    case False
    then show ?thesis using 2 by simp
  next
    case True
    let ?r = "lookup_or_register relPath init name
                (if n_type init = ArrowFunctionExpression then F_arrow else F_function)
                (Some name) True st"
    have "exp_incl (as_functions (markExport (Some (fst ?r)) name (snd ?r)))"
      by (intro markExport_exp_incl lookup_or_register_exp_incl "2.prems")
    then show ?thesis using True "2.IH"(1) [OF True, of "fst ?r" "snd ?r"]
      by (simp add: case_prod_beta)
  qed
qed simp_all

lemma register_mark_exp_incl:
  assumes "exp_incl (as_functions st)"
  shows "exp_incl (as_functions
           (markExport (Some (fst (lookup_or_register rel node name kind en ex st))) mname
              (snd (lookup_or_register rel node name kind en ex st))))"
    and "exp_incl (as_functions
           (markExport (Some (fst (registerFunction rel nid name kind en ex loc st))) mname
              (snd (registerFunction rel nid name kind en ex loc st))))"
  by (intro markExport_exp_incl lookup_or_register_exp_incl registerFunction_exp_incl assms)+

lemma visit_ExportNamedDeclaration_exp_incl:
  assumes "exp_incl (as_functions st)"
  shows "exp_incl (as_functions (visit_ExportNamedDeclaration rel decl st))"
  using assms
  by (simp add: visit_ExportNamedDeclaration_def register_mark_exp_incl export_declarators_exp_incl
      case_prod_beta split: export_decl.splits option.splits)

lemma visit_ExportDefaultDeclaration_exp_incl:
  assumes "exp_incl (as_functions st)"
  shows "exp_incl (as_functions (visit_ExportDefaultDeclaration rel decl st))"
  using assms
  by (simp add: visit_ExportDefaultDeclaration_def register_mark_exp_incl markExport_exp_incl
      case_prod_beta split: export_decl.splits option.splits)

lemma visitor_exp_incl:
  "exp_incl (as_functions st) \<Longrightarrow> exp_incl (as_functions (visitor rel v st))"
  by (cases v)
     (simp_all add: visit_CallExpression_exp_incl visit_FunctionDeclaration_exp_incl
        visit_ArrowFunctionExpression_exp_incl visit_FunctionExpression_exp_incl
        visit_ClassMethod_exp_incl visit_ExportNamedDeclaration_exp_incl
        visit_ExportDefaultDeclaration_exp_incl)

lemma fold_visitor_exp_incl:
  "exp_incl (as_functions st) \<Longrightarrow> exp_incl (as_functions (fold (visitor rel) vs st))"
  by (induction vs arbitrary: st) (simp_all add: visitor_exp_incl)

lemma traverse_exp_incl: "exp_incl (fa_functions (traverse rel visits))"
  using fold_visitor_exp_incl [of initial_state rel visits]
  by (simp add: traverse_def Let_def initial_state_def)

subsection \<open>Extraction\<close>

lemma set_all_functions:
  "set (all_functions files) = (\<Union>p \<in> set files. set (fa_functions (snd p)))"
  by (induction files) auto

lemma exp_incl_all_functions:
  "exp_incl (all_functions files) = (\<forall>p \<in> set files. exp_incl (fa_functions (snd p)))"
  by (auto simp: exp_incl_def set_all_functions)

lemma extraction_step_extracted:
  assumes "extracted rels ctx" "fe_rel file \<in> rels"
  shows "extracted rels (extraction_step file ctx)
       \<and> ctx_fileSet (extraction_step file ctx) = ctx_fileSet ctx"
proof (cases "fe_parse file")
  case (ParseFailed m)
  then show ?thesis using assms by (simp add: extraction_step_def analyzeFile_def extracted_def)
next
  case (Parsed visits)
  let ?a = "traverse (fe_rel file) visits"
  have e: "extraction_step file ctx = ctx\<lparr>ctx_files := AList.update (fe_rel file) ?a (ctx_files ctx)\<rparr>"
    using Parsed by (simp add: extraction_step_def analyzeFile_def)
  have k: "set (map fst (AList.update (fe_rel file) ?a (ctx_files ctx))) \<subseteq> rels"
    using assms dom_update [of "fe_rel file" ?a "ctx_files ctx"] by (auto simp: extracted_def)
  have "\<forall>p \<in> set (AList.update (fe_rel file) ?a (ctx_files ctx)). exp_incl (fa_functions (snd p))"
    using set_update_subset [of "fe_rel file" ?a "ctx_files ctx"] assms(1) traverse_exp_incl
    by (auto simp: extracted_def exp_incl_all_functions)
  then show ?thesis using assms k unfolding e
    by (simp add: extracted_def exp_incl_all_functions)
qed

lemma fold_extraction_step_extracted:
  "extracted rels ctx \<Longrightarrow> fe_rel ` set fs \<subseteq> rels \<Longrightarrow>
   extracted rels (fold extraction_step fs ctx)
   \<and> ctx_fileSet (fold extraction_step fs ctx) = ctx_fileSet ctx"
proof (induction fs arbitrary: ctx)
  case Nil
  then show ?case by simp
next
  case (Cons f fs)
  have "fe_rel f \<in> rels" using Cons.prems(2) by simp
  note s = extraction_step_extracted [OF Cons.prems(1) this]
  show ?case using Cons.IH [of "extraction_step f ctx"] s Cons.prems(2) by simp
qed

lemma extraction_extracted:
  "extracted (fe_rel ` set (parseTargets_of inp))
     (extraction completedAt (parseTargets_of inp) (initial_context inp))
   \<and> ctx_fileSet (extraction completedAt (parseTargets_of inp) (initial_context inp))
       = fe_rel ` set (in_files inp)"
proof -
  have "extracted (fe_rel ` set (parseTargets_of inp)) (initial_context inp)"
    by (simp add: extracted_def initial_context_def)
  from fold_extraction_step_extracted [OF this, of "sort_key (\<lambda>file. completedAt (fe_rel file)) (parseTargets_of inp)"]
  show ?thesis by (simp add: extraction_def initial_context_def)
qed

subsection \<open>The deterministic passes\<close>

lemma all_functions_update_file:
  assumes "\<And>a. fa_functions (g a) = fa_functions a"
  shows "all_functions (update_file rel g files) = all_functions files"
  by (induction files) (auto simp: update_file_def assms)

lemma resolve_file_functions:
  "all_functions (ctx_files (resolve_file rel ctx)) = all_functions (ctx_files ctx)"
proof (cases "map_of (ctx_files ctx) rel")
  case None
  then show ?thesis by (simp add: resolve_file_def)
next
  case (Some a)
  have "ctx_files (snd (resolve_bindings rel (fa_imports a) ctx)) = ctx_files ctx"
    using resolve_bindings_frame [of rel "fa_imports a" ctx] by simp
  then show ?thesis using Some
    by (simp add: resolve_file_def case_prod_beta all_functions_update_file)
qed

lemma fold_resolve_file_functions:
  "all_functions (ctx_files (fold resolve_file rels ctx)) = all_functions (ctx_files ctx)"
  by (induction rels arbitrary: ctx) (simp_all add: resolve_file_functions)

lemma resolveImports_resolved:
  assumes "extracted rels ctx"
  shows "analysed rels (resolveImports ctx) \<and> ctx_fileSet (resolveImports ctx) = ctx_fileSet ctx"
proof -
  let ?keys = "set (map fst (ctx_files ctx))"
  have c: "cache_ok (ctx_fileSet ctx) (ctx_cache ctx)"
    using assms by (simp add: extracted_def cache_ok_empty)
  have s: "static_file_edges ?keys (ctx_fileSet ctx) (ctx_fileEdges ctx)"
    using assms by (simp add: extracted_def static_file_edges_def)
  note f = fold_resolve_file_inv [OF c s, of "map fst (ctx_files ctx)"]
  show ?thesis
    unfolding analysed_def resolveImports_def
    using f assms fold_resolve_file_functions [of "map fst (ctx_files ctx)" ctx]
    by (simp add: extracted_def endpoints_in_def)
qed

lemma grows_exp_incl:
  "grows files files' \<Longrightarrow> exp_incl (all_functions files) \<Longrightarrow> exp_incl (all_functions files')"
  unfolding grows_def
proof (induction rule: list_all2_induct)
  case Nil
  then show ?case by simp
next
  case (Cons p ps p' ps')
  have l: "list_all2 same_fn (fa_functions (snd p)) (fa_functions (snd p'))"
    using Cons.hyps by (simp add: same_analysis_def)
  have "exp_incl (fa_functions (snd p'))"
    unfolding exp_incl_def
  proof (intro ballI impI)
    fix f' assume f': "f' \<in> set (fa_functions (snd p'))" "fn_isExported f'"
    then obtain i where i: "i < length (fa_functions (snd p'))" "fa_functions (snd p') ! i = f'"
      by (auto simp: in_set_conv_nth)
    then have sf: "same_fn (fa_functions (snd p) ! i) f'" "i < length (fa_functions (snd p))"
      using l by (auto simp: list_all2_conv_all_nth)
    then have "fn_isExported (fa_functions (snd p) ! i)"
      using f'(2) unfolding same_fn_def
      by (metis FunctionInfo.select_convs(7) FunctionInfo.surjective FunctionInfo.update_convs(8))
    moreover have "fa_functions (snd p) ! i \<in> set (fa_functions (snd p))" using sf(2) by simp
    ultimately have "fn_include (fa_functions (snd p) ! i)"
      using Cons.prems by (auto simp: exp_incl_def)
    then show "fn_include f'" using sf(1) by (simp add: same_fn_def)
  qed
  then show ?case using Cons by (simp add: exp_incl_append)
qed

lemma collectFunctionExports_fields [simp]:
  "ctx_files (collectFunctionExports ctx) = ctx_files ctx"
  "ctx_fileEdges (collectFunctionExports ctx) = ctx_fileEdges ctx"
  "ctx_functionEdges (collectFunctionExports ctx) = ctx_functionEdges ctx"
  "ctx_fileSet (collectFunctionExports ctx) = ctx_fileSet ctx"
  by (simp_all add: collectFunctionExports_def)

lemma collectFunctionExports_resolved [simp]:
  "analysed rels (collectFunctionExports ctx) = analysed rels ctx"
  by (simp add: analysed_def)

lemma collectFunctionEdges_resolved:
  assumes "analysed rels ctx"
  shows "analysed rels (collectFunctionEdges ctx)
       \<and> ctx_fileSet (collectFunctionEdges ctx) = ctx_fileSet ctx"
proof -
  have "edges_pass_inv ctx (collectFunctionEdges ctx)"
    by (rule collectFunctionEdges_inv) (use assms in \<open>simp add: analysed_def\<close>)
  then show ?thesis
    using assms grows_keys [of "ctx_files ctx" "ctx_files (collectFunctionEdges ctx)"]
      grows_exp_incl [of "ctx_files ctx" "ctx_files (collectFunctionEdges ctx)"]
    by (simp add: edges_pass_inv_def analysed_def)
qed

lemma no_parsed_warning_fields [simp]:
  "ctx_files (no_parsed_warning ctx) = ctx_files ctx"
  "ctx_fileEdges (no_parsed_warning ctx) = ctx_fileEdges ctx"
  "ctx_functionEdges (no_parsed_warning ctx) = ctx_functionEdges ctx"
  "ctx_fileSet (no_parsed_warning ctx) = ctx_fileSet ctx"
  "ctx_cache (no_parsed_warning ctx) = ctx_cache ctx"
  by (simp_all add: no_parsed_warning_def)

lemma static_context_resolved:
  "analysed (fe_rel ` set (parseTargets_of inp)) (static_context inp completedAt)
   \<and> ctx_fileSet (static_context inp completedAt) = fe_rel ` set (in_files inp)"
proof -
  let ?rels = "fe_rel ` set (parseTargets_of inp)"
  let ?c1 = "no_parsed_warning (extraction completedAt (parseTargets_of inp) (initial_context inp))"
  have 1: "extracted ?rels ?c1" "ctx_fileSet ?c1 = fe_rel ` set (in_files inp)"
    using extraction_extracted [of inp completedAt] by (simp_all add: extracted_def)
  note 2 = resolveImports_resolved [OF 1(1)]
  have 3: "analysed ?rels (collectFunctionExports (resolveImports ?c1))"
    using 2 by simp
  note 4 = collectFunctionEdges_resolved [OF 3]
  show ?thesis unfolding static_context_def using 4 2 1(2) by simp
qed

lemma final_context_assembled: "assembled inp (final_context inp completedAt)"
proof -
  let ?s = "static_context inp completedAt"
  let ?e = "enrichRelationshipsWithLLM (in_hasApiKey inp) (in_llmService inp) ?s"
  have rr: "analysed (fe_rel ` set (parseTargets_of inp)) ?s"
    and fs: "ctx_fileSet ?s = fe_rel ` set (in_files inp)"
    using static_context_resolved [of inp completedAt] by blast+
  have r0: "set (map fst (ctx_files ?s)) \<subseteq> fe_rel ` set (parseTargets_of inp)"
    and rx: "exp_incl (all_functions (ctx_files ?s))"
    and r1: "endpoints_in (included_ids (ctx_files ?s)) (ctx_functionEdges ?s)"
    and r3: "static_file_edges (set (map fst (ctx_files ?s))) (ctx_fileSet ?s) (ctx_fileEdges ?s)"
    using rr unfolding analysed_def by blast+
  have r2: "file_edges_ok (set (map fst (ctx_files ?s))) (ctx_fileSet ?s) (ctx_fileEdges ?s)"
    using r3 by (rule static_file_edges_ok)
  have en: "enriched ?s ?e"
    by (rule enrich_enriched [OF r1 r2])
  then have g: "grows (ctx_files ?s) (ctx_files ?e)"
    and e1: "endpoints_in (included_ids (ctx_files ?e)) (ctx_functionEdges ?e)"
    and e2: "file_edges_ok (set (map fst (ctx_files ?s))) (ctx_fileSet ?s) (ctx_fileEdges ?e)"
    unfolding enriched_def by blast+
  have k: "map fst (ctx_files ?e) = map fst (ctx_files ?s)"
    using g by (rule grows_keys)
  have x: "exp_incl (all_functions (ctx_files ?e))"
    using g rx by (rule grows_exp_incl)
  have e2': "file_edges_ok (set (map fst (ctx_files ?e))) (fe_rel ` set (in_files inp)) (ctx_fileEdges ?e)"
    using e2 unfolding k fs .
  have k': "set (map fst (ctx_files ?e)) \<subseteq> fe_rel ` set (parseTargets_of inp)"
    using r0 unfolding k .
  show ?thesis
    unfolding final_context_def assembled_def collectUnresolvedWarnings_fields
    using k' x e2' e1 by (intro conjI)
qed

subsection \<open>Edges and nodes of the response\<close>

lemma response_fields:
  "files_edges (response_of inp ctx) = map (\<lambda>(key, edge). graph_edge edge) (ctx_fileEdges ctx)"
  "functions_edges (response_of inp ctx) = map (\<lambda>(key, edge). graph_edge edge) (ctx_functionEdges ctx)"
  "functions_nodes (response_of inp ctx) = functionNodes_of (ctx_files ctx)"
  by (simp_all add: response_of_def Let_def)

lemma graph_edge_fields [simp]:
  "ge_source (graph_edge e) = e_source e"
  "ge_target (graph_edge e) = e_target e"
  "ge_kind (graph_edge e) = e_kind e"
  "ge_sourceType (graph_edge e) = e_sourceType e"
  "ge_reason (graph_edge e) = e_reason e"
  "ge_confidence (graph_edge e) = e_confidence e"
  by (simp_all add: graph_edge_def)

lemma file_node_exists:
  assumes "rel \<in> set (map fst (ctx_files ctx))" "f \<in> set (in_files inp)" "fe_rel f = rel"
  shows "\<exists>n \<in> set (files_nodes (response_of inp ctx)). \<not> node_isDirectory n \<and> node_id n = rel"
proof -
  let ?label = "if in_displayName inp \<noteq> [] then in_displayName inp else in_basename inp"
  let ?n = "\<lparr>node_id = fe_rel f,
             node_label = (if posix_basename (fe_rel f) \<noteq> [] then posix_basename (fe_rel f) else ?label),
             node_path = fe_rel f, node_isDirectory = False\<rparr>"
  have "f \<in> set (filter (\<lambda>file. fe_rel file \<in> set (map fst (ctx_files ctx))) (in_files inp))"
    using assms by simp
  then have "?n \<in> set (files_nodes (response_of inp ctx))"
    unfolding response_of_def Let_def by (simp del: set_map set_filter) (simp add: image_iff, blast)
  then show ?thesis using assms(3) by (intro bexI [of _ ?n]) simp_all
qed

lemma parsed_key_is_file:
  assumes "assembled inp ctx" "rel \<in> set (map fst (ctx_files ctx))"
  shows "\<exists>f \<in> set (in_files inp). fe_rel f = rel"
proof -
  have "rel \<in> fe_rel ` set (parseTargets_of inp)"
    using assms unfolding assembled_def by blast
  then show ?thesis unfolding parseTargets_of_def by auto
qed

lemma parsed_key_has_node:
  assumes "assembled inp ctx" "rel \<in> set (map fst (ctx_files ctx))"
  shows "\<exists>n \<in> set (files_nodes (response_of inp ctx)). \<not> node_isDirectory n \<and> node_id n = rel"
  using parsed_key_is_file [OF assms] file_node_exists [OF assms(2)] by blast

lemma response_Inr:
  "analyzeRepositoryGraph inp completedAt = Inr r \<Longrightarrow>
   r = response_of inp (final_context inp completedAt)"
  by (auto simp: analyzeRepositoryGraph_def split: if_splits)

text \<open>
  Claim C10. In every response, a static file edge starts at a file that has a file node
  and ends at a path of the scanned file set. The target need not have a node: with
  \<^verbatim>\<open>app.ts\<close> importing \<^verbatim>\<open>./config\<close> beside \<^verbatim>\<open>config.json\<close>, the file graph has the
  edge from \<^verbatim>\<open>app.ts\<close> to \<^verbatim>\<open>config.json\<close> and no node \<^verbatim>\<open>config.json\<close>.
\<close>

theorem static_file_edge_endpoints:
  "(analyzeRepositoryGraph inp completedAt = Inr r \<longrightarrow>
      (\<forall>e \<in> set (files_edges r).
         ge_sourceType e = S_static \<longrightarrow>
           (\<exists>n \<in> set (files_nodes r). \<not> node_isDirectory n \<and> node_id n = ge_source e)
           \<and> (\<exists>f \<in> set (in_files inp). fe_rel f = ge_target e)))
   \<and> map_sum id (\<lambda>r. (map node_id (files_nodes r), map edge_summary (files_edges r)))
        (analyzeRepositoryGraph (example_input json_import_files False no_proposals) (\<lambda>rel. 0))
       = Inr ([''dir:.'', ''app.ts''], [(''app.ts'', ''config.json'', K_imports, S_static)])"
proof (intro conjI impI ballI)
  fix e
  assume r: "analyzeRepositoryGraph inp completedAt = Inr r"
    and e: "e \<in> set (files_edges r)" and st: "ge_sourceType e = S_static"
  let ?ctx = "final_context inp completedAt"
  have a: "assembled inp ?ctx" by (rule final_context_assembled)
  have r': "r = response_of inp ?ctx" using r by (rule response_Inr)
  from e obtain k e0 where e0: "(k, e0) \<in> set (ctx_fileEdges ?ctx)" "e = graph_edge e0"
    unfolding r' response_fields by auto
  have ok: "e_source e0 \<in> set (map fst (ctx_files ?ctx))" "e_target e0 \<in> fe_rel ` set (in_files inp)"
    using a e0 st unfolding assembled_def file_edges_ok_def by auto
  show "\<exists>n \<in> set (files_nodes r). \<not> node_isDirectory n \<and> node_id n = ge_source e"
    unfolding r' using parsed_key_has_node [OF a ok(1)] e0(2) by simp
  show "\<exists>f \<in> set (in_files inp). fe_rel f = ge_target e"
    using ok(2) e0(2) by auto
next
  show "map_sum id (\<lambda>r. (map node_id (files_nodes r), map edge_summary (files_edges r)))
        (analyzeRepositoryGraph (example_input json_import_files False no_proposals) (\<lambda>rel. 0))
       = Inr ([''dir:.'', ''app.ts''], [(''app.ts'', ''config.json'', K_imports, S_static)])"
    by code_simp
qed

theorem static_file_edge_endpoints_witness:
  "(\<exists>n \<in> set (files_nodes (response_of (example_input json_import_files False no_proposals)
        (final_context (example_input json_import_files False no_proposals) (\<lambda>rel. 0)))).
      \<not> node_isDirectory n \<and> node_id n = ''app.ts'')
   \<and> (\<exists>f \<in> set (in_files (example_input json_import_files False no_proposals)).
        fe_rel f = ''config.json'')"
proof -
  let ?inp = "example_input json_import_files False no_proposals"
  let ?r = "response_of ?inp (final_context ?inp (\<lambda>rel. 0))"
  let ?e = "\<lparr>ge_id = ''app.ts->config.json'', ge_source = ''app.ts'', ge_target = ''config.json'',
             ge_kind = K_imports, ge_sourceType = S_static, ge_confidence = None, ge_reason = None\<rparr>"
  have 1: "analyzeRepositoryGraph ?inp (\<lambda>rel. 0) = Inr ?r"
    by (simp add: analyzeRepositoryGraph_def example_input_def json_import_files_def)
  have 2: "files_edges ?r = [?e]" by code_simp
  from static_file_edge_endpoints [of ?inp "\<lambda>rel. 0" ?r, THEN conjunct1, rule_format, OF 1, of ?e]
  show ?thesis using 2 by simp
qed

lemma llm_file_edge_rejected:
  "lf_source e \<notin> filePaths \<or> lf_target e \<notin> filePaths \<Longrightarrow> llm_file_edge filePaths e acc = acc"
  by (cases acc) (auto simp: llm_file_edge_def)

lemma llm_function_edge_rejected:
  "functionLookup (fst (lx_source e) @ '':'' @ snd (lx_source e)) = None
     \<or> functionLookup (fst (lx_target e) @ '':'' @ snd (lx_target e)) = None \<Longrightarrow>
   llm_function_edge functionLookup e acc = acc"
  by (cases acc) (auto simp: llm_function_edge_def Let_def split: option.splits)

text \<open>
  Claim C6, as the code has it. A proposed file edge with an endpoint that is not an
  analysed file is dropped, and so is a proposed function edge with an endpoint that the
  lookup of \<^emph>\<open>all\<close> registered functions does not know. In every response, an
  \<^verbatim>\<open>llm\<close> file edge joins two files that have file nodes, and every function edge joins
  two function nodes of the response.
\<close>

theorem llm_edge_endpoints:
  "(lf_source fileEdge \<notin> set (map fst (ctx_files ctx)) \<or> lf_target fileEdge \<notin> set (map fst (ctx_files ctx))
      \<longrightarrow> llm_file_edge (set (map fst (ctx_files ctx))) fileEdge acc = acc)
   \<and> (functionLookup_of (ctx_files ctx) (fst (lx_source functionEdge) @ '':'' @ snd (lx_source functionEdge)) = None
        \<or> functionLookup_of (ctx_files ctx) (fst (lx_target functionEdge) @ '':'' @ snd (lx_target functionEdge)) = None
      \<longrightarrow> llm_function_edge (functionLookup_of (ctx_files ctx)) functionEdge acc' = acc')
   \<and> (analyzeRepositoryGraph inp completedAt = Inr r \<longrightarrow>
        (\<forall>e \<in> set (files_edges r).
           ge_sourceType e = S_llm \<longrightarrow>
             (\<exists>n \<in> set (files_nodes r). \<not> node_isDirectory n \<and> node_id n = ge_source e)
             \<and> (\<exists>n \<in> set (files_nodes r). \<not> node_isDirectory n \<and> node_id n = ge_target e))
        \<and> (\<forall>e \<in> set (functions_edges r).
             ge_source e \<in> fnode_id ` set (functions_nodes r)
             \<and> ge_target e \<in> fnode_id ` set (functions_nodes r)))"
proof (intro conjI impI ballI)
  assume "lf_source fileEdge \<notin> set (map fst (ctx_files ctx)) \<or> lf_target fileEdge \<notin> set (map fst (ctx_files ctx))"
  then show "llm_file_edge (set (map fst (ctx_files ctx))) fileEdge acc = acc"
    by (rule llm_file_edge_rejected)
next
  assume "functionLookup_of (ctx_files ctx) (fst (lx_source functionEdge) @ '':'' @ snd (lx_source functionEdge)) = None
        \<or> functionLookup_of (ctx_files ctx) (fst (lx_target functionEdge) @ '':'' @ snd (lx_target functionEdge)) = None"
  then show "llm_function_edge (functionLookup_of (ctx_files ctx)) functionEdge acc' = acc'"
    by (rule llm_function_edge_rejected)
next
  fix e
  assume r: "analyzeRepositoryGraph inp completedAt = Inr r"
    and e: "e \<in> set (files_edges r)" and st: "ge_sourceType e = S_llm"
  let ?ctx = "final_context inp completedAt"
  have a: "assembled inp ?ctx" by (rule final_context_assembled)
  have r': "r = response_of inp ?ctx" using r by (rule response_Inr)
  from e obtain k e0 where e0: "(k, e0) \<in> set (ctx_fileEdges ?ctx)" "e = graph_edge e0"
    unfolding r' response_fields by auto
  have ok: "e_source e0 \<in> set (map fst (ctx_files ?ctx))" "e_target e0 \<in> set (map fst (ctx_files ?ctx))"
    using a e0 st unfolding assembled_def file_edges_ok_def by auto
  show "\<exists>n \<in> set (files_nodes r). \<not> node_isDirectory n \<and> node_id n = ge_source e"
    unfolding r' using parsed_key_has_node [OF a ok(1)] e0(2) by simp
  show "\<exists>n \<in> set (files_nodes r). \<not> node_isDirectory n \<and> node_id n = ge_target e"
    unfolding r' using parsed_key_has_node [OF a ok(2)] e0(2) by simp
next
  fix e
  assume r: "analyzeRepositoryGraph inp completedAt = Inr r"
    and e: "e \<in> set (functions_edges r)"
  let ?ctx = "final_context inp completedAt"
  have a: "assembled inp ?ctx" by (rule final_context_assembled)
  have r': "r = response_of inp ?ctx" using r by (rule response_Inr)
  from e obtain k e0 where e0: "(k, e0) \<in> set (ctx_functionEdges ?ctx)" "e = graph_edge e0"
    unfolding r' response_fields by auto
  have "e_source e0 \<in> included_ids (ctx_files ?ctx)" "e_target e0 \<in> included_ids (ctx_files ?ctx)"
    using a e0 unfolding assembled_def endpoints_in_def by auto
  then show "ge_source e \<in> fnode_id ` set (functions_nodes r)"
    "ge_target e \<in> fnode_id ` set (functions_nodes r)"
    unfolding r' response_fields function_node_ids using e0(2) by simp_all
qed

theorem llm_proposal_adds_nodes:
  "map_sum id (\<lambda>r. (map fnode_id (functions_nodes r), map edge_summary (functions_edges r)))
     (analyzeRepositoryGraph
        (example_input two_locals_files True
           (no_proposals\<lparr>lr_functionEdges := [foo_to_bar ''calls'' None]\<rparr>)) (\<lambda>rel. 0))
     = Inr ([''a.ts::foo'', ''a.ts::bar''], [(''a.ts::foo'', ''a.ts::bar'', K_invokes, S_llm)])
   \<and> map_sum id (\<lambda>r. (map fnode_id (functions_nodes r), map edge_summary (functions_edges r)))
       (analyzeRepositoryGraph (example_input two_locals_files False no_proposals) (\<lambda>rel. 0))
     = Inr ([], [])"
  by code_simp

theorem llm_edge_endpoints_witness:
  "llm_file_edge {''a.ts''}
     \<lparr>lf_source = ''a.ts'', lf_target = ''missing.ts'', lf_relationship = ''imports'',
      lf_confidence = None\<rparr> ([], 0) = ([], 0)
   \<and> llm_function_edge (functionLookup_of []) (foo_to_bar ''calls'' None)
       (initial_context no_files_input, 0) = (initial_context no_files_input, 0)
   \<and> ''a.ts::foo'' \<in> fnode_id ` set (functions_nodes
        (response_of (example_input two_locals_files True
             (no_proposals\<lparr>lr_functionEdges := [foo_to_bar ''calls'' None]\<rparr>))
           (final_context (example_input two_locals_files True
             (no_proposals\<lparr>lr_functionEdges := [foo_to_bar ''calls'' None]\<rparr>)) (\<lambda>rel. 0))))"
proof -
  let ?inp = "example_input two_locals_files True
             (no_proposals\<lparr>lr_functionEdges := [foo_to_bar ''calls'' None]\<rparr>)"
  let ?r = "response_of ?inp (final_context ?inp (\<lambda>rel. 0))"
  let ?e = "\<lparr>ge_id = ''a.ts::foo->a.ts::bar'', ge_source = ''a.ts::foo'', ge_target = ''a.ts::bar'',
             ge_kind = K_invokes, ge_sourceType = S_llm, ge_confidence = None, ge_reason = None\<rparr>"
  let ?ctx = "(initial_context no_files_input)\<lparr>ctx_files := [(''a.ts'', traverse ''a.ts'' [])]\<rparr>"
  let ?fe = "\<lparr>lf_source = ''a.ts'', lf_target = ''missing.ts'', lf_relationship = ''imports'',
      lf_confidence = None\<rparr>"
  note t = llm_edge_endpoints [of ?fe ?ctx "([], 0)" "foo_to_bar ''calls'' None"
      "(initial_context no_files_input, 0)" ?inp "\<lambda>rel. 0" ?r]
  have 1: "analyzeRepositoryGraph ?inp (\<lambda>rel. 0) = Inr ?r"
    by (simp add: analyzeRepositoryGraph_def example_input_def two_locals_files_def)
  have 2: "functions_edges ?r = [?e]" by code_simp
  have 3: "lf_target ?fe \<notin> set (map fst (ctx_files ?ctx))" by simp
  have 4: "functionLookup_of (ctx_files ?ctx)
      (fst (lx_source (foo_to_bar ''calls'' None)) @ '':'' @ snd (lx_source (foo_to_bar ''calls'' None))) = None"
    by code_simp
  have a: "llm_file_edge {''a.ts''} ?fe ([], 0) = ([], 0)"
    using t [THEN conjunct1] 3 by simp
  have b0: "llm_function_edge (functionLookup_of (ctx_files ?ctx)) (foo_to_bar ''calls'' None)
       (initial_context no_files_input, 0) = (initial_context no_files_input, 0)"
    using t [THEN conjunct2, THEN conjunct1] 4 by blast
  have "functionLookup_of (ctx_files ?ctx) = functionLookup_of []"
    by (simp add: functionLookup_of_def traverse_def initial_state_def)
  then have b: "llm_function_edge (functionLookup_of []) (foo_to_bar ''calls'' None)
       (initial_context no_files_input, 0) = (initial_context no_files_input, 0)"
    using b0 by simp
  have c: "''a.ts::foo'' \<in> fnode_id ` set (functions_nodes ?r)"
    using t [THEN conjunct2, THEN conjunct2, rule_format, OF 1, THEN conjunct2, rule_format, of ?e] 2
    by simp
  show ?thesis using a b c by (intro conjI)
qed



theorem llm_reason_appended:
  "map_sum id (\<lambda>r. map (\<lambda>e. (ge_id e, ge_reason e)) (functions_edges r))
     (analyzeRepositoryGraph
        (example_input two_locals_files True
           (no_proposals\<lparr>lr_functionEdges := [foo_to_bar ''calls'' (Some ''foo calls bar'')]\<rparr>))
        (\<lambda>rel. 0))
     = Inr [(''a.ts::foo->a.ts::bar'', Some ''foo calls bar'')]
   \<and> map_sum id (\<lambda>r. map (\<lambda>e. (ge_id e, ge_reason e)) (functions_edges r))
       (analyzeRepositoryGraph
          (example_input two_locals_files True
             (no_proposals\<lparr>lr_functionEdges := [foo_to_bar ''calls'' (Some ''foo calls bar''),
                                                  foo_to_bar ''calls'' (Some ''as a helper'')]\<rparr>))
          (\<lambda>rel. 0))
     = Inr [(''a.ts::foo->a.ts::bar'', Some ''foo calls bar as a helper'')]"
  by code_simp

theorem edge_insertion_dedup_witness:
  "distinct (map fst (fold insert_edge
       [StaticInsert ''A'' ''B'',
        LlmFileInsert \<lparr>lf_source = ''A'', lf_target = ''B'', lf_relationship = ''uses'',
                       lf_confidence = Some C_high\<rparr>] []))
   \<and> length (insert_edge
        (LlmFileInsert \<lparr>lf_source = ''A'', lf_target = ''B'', lf_relationship = ''uses'',
                        lf_confidence = Some C_high\<rparr>)
        [(''A->B'', \<lparr>e_source = ''A'', e_target = ''B'', e_kind = K_imports,
                     e_sourceType = S_static, e_confidence = None, e_reason = None\<rparr>)]) = 1
   \<and> (\<exists>new. map_of (insert_edge
        (LlmFileInsert \<lparr>lf_source = ''A'', lf_target = ''B'', lf_relationship = ''uses'',
                        lf_confidence = Some C_high\<rparr>)
        [(''A->B'', \<lparr>e_source = ''A'', e_target = ''B'', e_kind = K_imports,
                     e_sourceType = S_static, e_confidence = None, e_reason = None\<rparr>)]) ''A->B''
          = Some new
        \<and> e_kind new = K_imports \<and> e_sourceType new = S_static
        \<and> e_confidence new = Some C_high \<and> e_reason new = None)"
  using edge_insertion_dedup [of
      "[StaticInsert ''A'' ''B'',
        LlmFileInsert \<lparr>lf_source = ''A'', lf_target = ''B'', lf_relationship = ''uses'',
                       lf_confidence = Some C_high\<rparr>]"
      "[(''A->B'', \<lparr>e_source = ''A'', e_target = ''B'', e_kind = K_imports,
                     e_sourceType = S_static, e_confidence = None, e_reason = None\<rparr>)]"
      "LlmFileInsert \<lparr>lf_source = ''A'', lf_target = ''B'', lf_relationship = ''uses'',
                        lf_confidence = Some C_high\<rparr>"
      "\<lparr>e_source = ''A'', e_target = ''B'', e_kind = K_imports,
                     e_sourceType = S_static, e_confidence = None, e_reason = None\<rparr>"]
  by (simp add: edge_key_def)

theorem llm_kind_rules_differ:
  "map_sum id (\<lambda>r. (map edge_summary (files_edges r), map edge_summary (functions_edges r)))
     (analyzeRepositoryGraph
        (example_input two_locals_files True
           (no_proposals
              \<lparr>lr_fileEdges := [\<lparr>lf_source = ''a.ts'', lf_target = ''b.ts'',
                                 lf_relationship = ''calls'', lf_confidence = None\<rparr>],
               lr_functionEdges := [foo_to_bar ''imports'' None]\<rparr>)) (\<lambda>rel. 0))
   = Inr ([(''a.ts'', ''b.ts'', K_llm_reference, S_llm)],
          [(''a.ts::foo'', ''a.ts::bar'', K_llm_reference, S_llm)])"
  by code_simp


theorem llm_new_edge_kind_witness:
  "(\<exists>new. map_of (fst (fold (llm_file_edge {''a.ts'', ''b.ts''})
                [\<lparr>lf_source = ''a.ts'', lf_target = ''b.ts'', lf_relationship = ''Imports'',
                  lf_confidence = None\<rparr>] ([], 0))) ''a.ts->b.ts'' = Some new
          \<and> e_sourceType new = S_llm \<and> e_kind new = K_imports)
   \<and> (\<exists>new. map_of (ctx_functionEdges
                (fst (fold (llm_function_edge
                        (functionLookup_of (ctx_files
                           (static_context (example_input two_locals_files True no_proposals)
                              (\<lambda>rel. 0)))))
                      [foo_to_bar ''Invokes'' None]
                      (static_context (example_input two_locals_files True no_proposals)
                         (\<lambda>rel. 0), 0))))
             ''a.ts::foo->a.ts::bar'' = Some new
          \<and> e_sourceType new = S_llm \<and> e_kind new = K_invokes)"
proof -
  let ?ctx = "static_context (example_input two_locals_files True no_proposals) (\<lambda>rel. 0)"
  let ?fe = "\<lparr>lf_source = ''a.ts'', lf_target = ''b.ts'', lf_relationship = ''Imports'',
      lf_confidence = None\<rparr>"
  let ?foo = "\<lparr>fn_id = ''a.ts::foo'', fn_name = ''foo'', fn_filePath = ''a.ts'',
      fn_kind = F_function, fn_loc = None, fn_exportName = None, fn_isExported = False,
      fn_include = False\<rparr>"
  let ?bar = "\<lparr>fn_id = ''a.ts::bar'', fn_name = ''bar'', fn_filePath = ''a.ts'',
      fn_kind = F_function, fn_loc = None, fn_exportName = None, fn_isExported = False,
      fn_include = False\<rparr>"
  note t = llm_new_edge_kind [of ?fe "{''a.ts'', ''b.ts''}" "[]" "[]" 0
      "functionLookup_of (ctx_files ?ctx)" "foo_to_bar ''Invokes'' None"
      "(''a.ts'', 0)" "(''a.ts'', 1)" ?ctx ?foo ?bar "[]" 0]
  have l1: "functionLookup_of (ctx_files ?ctx) ''a.ts:foo'' = Some (''a.ts'', 0)" by code_simp
  have l2: "functionLookup_of (ctx_files ?ctx) ''a.ts:bar'' = Some (''a.ts'', 1)" by code_simp
  have f1: "fn_at (ctx_files ?ctx) (''a.ts'', 0) = Some ?foo" by code_simp
  have f2: "fn_at (ctx_files ?ctx) (''a.ts'', 1) = Some ?bar" by code_simp
  have e: "ctx_functionEdges ?ctx = []" by code_simp
  have k: "toLowerCase ''Imports'' = ''imports''" by code_simp
  have k2: "js_includes (toLowerCase ''Invokes'') ''invoke''" by code_simp
  have a: "\<exists>new. map_of (fst (fold (llm_file_edge {''a.ts'', ''b.ts''}) [?fe] ([], 0)))
               ''a.ts->b.ts'' = Some new \<and> e_sourceType new = S_llm \<and> e_kind new = K_imports"
    using t [THEN conjunct1] k by simp
  have b: "\<exists>new. map_of (ctx_functionEdges
                (fst (fold (llm_function_edge (functionLookup_of (ctx_files ?ctx)))
                      [foo_to_bar ''Invokes'' None] (?ctx, 0))))
             ''a.ts::foo->a.ts::bar'' = Some new
          \<and> e_sourceType new = S_llm \<and> e_kind new = K_invokes"
    using t [THEN conjunct2] l1 l2 f1 f2 e k2 by (simp add: foo_to_bar_def)
  show ?thesis using a b by (intro conjI)
qed

subsection \<open>Which calls the call-edge pass links\<close>




















lemma link_simps [simp]:
  "link_keys [] = {}" "link_keys ((s, t) # links) = insert (edge_key s t) (link_keys links)"
  "link_ids [] = {}" "link_ids ((s, t) # links) = insert s (insert t (link_ids links))"
  "link_keys (xs @ ys) = link_keys xs \<union> link_keys ys"
  "link_ids (xs @ ys) = link_ids xs \<union> link_ids ys"
  by (auto simp: link_keys_def link_ids_def)





subsection \<open>Edge keys\<close>

lemma edge_keys_ok_Nil [simp]: "edge_keys_ok []"
  by (simp add: edge_keys_ok_def keyed_def)

lemma edge_keys_ok_static:
  "edge_keys_ok m \<Longrightarrow> edge_keys_ok (set_static_edge s t m)"
  unfolding edge_keys_ok_def set_static_edge_def Let_def
  by (simp add: keyed_update distinct_update)







lemma resolve_binding_keys_ok:
  "edge_keys_ok (ctx_fileEdges ctx) \<Longrightarrow> edge_keys_ok (ctx_fileEdges (snd (resolve_binding rel b ctx)))"
  by (simp add: resolve_binding_def Let_def edge_keys_ok_static split: prod.splits option.splits)

lemma resolve_bindings_keys_ok:
  "edge_keys_ok (ctx_fileEdges ctx) \<Longrightarrow> edge_keys_ok (ctx_fileEdges (snd (resolve_bindings rel bs ctx)))"
proof (induction bs arbitrary: ctx)
  case Nil
  then show ?case by simp
next
  case (Cons b bs)
  obtain b' ctx1 where s: "resolve_binding rel b ctx = (b', ctx1)"
    by (cases "resolve_binding rel b ctx")
  have "snd (resolve_bindings rel (b # bs) ctx) = snd (resolve_bindings rel bs ctx1)"
    using s by (simp split: prod.splits)
  moreover have "edge_keys_ok (ctx_fileEdges ctx1)"
    using resolve_binding_keys_ok [OF Cons.prems, of rel b] s by simp
  ultimately show ?case using Cons.IH [of ctx1] by simp
qed

lemma resolve_file_keys_ok:
  "edge_keys_ok (ctx_fileEdges ctx) \<Longrightarrow> edge_keys_ok (ctx_fileEdges (resolve_file rel ctx))"
proof (cases "map_of (ctx_files ctx) rel")
  case None
  then show "edge_keys_ok (ctx_fileEdges ctx) \<Longrightarrow> ?thesis" by (simp add: resolve_file_def)
next
  case (Some a)
  assume k: "edge_keys_ok (ctx_fileEdges ctx)"
  obtain bs' ctx1 where s: "resolve_bindings rel (fa_imports a) ctx = (bs', ctx1)"
    by (cases "resolve_bindings rel (fa_imports a) ctx")
  then show ?thesis
    using resolve_bindings_keys_ok [OF k, of rel "fa_imports a"] Some
    by (simp add: resolve_file_def)
qed

lemma resolveImports_keys_ok:
  "edge_keys_ok (ctx_fileEdges ctx) \<Longrightarrow> edge_keys_ok (ctx_fileEdges (resolveImports ctx))"
proof -
  have "\<And>rels ctx. edge_keys_ok (ctx_fileEdges ctx) \<Longrightarrow>
      edge_keys_ok (ctx_fileEdges (fold resolve_file rels ctx))"
  proof -
    fix rels ctx
    show "edge_keys_ok (ctx_fileEdges ctx) \<Longrightarrow> edge_keys_ok (ctx_fileEdges (fold resolve_file rels ctx))"
      by (induction rels arbitrary: ctx) (simp_all add: resolve_file_keys_ok)
  qed
  then show "edge_keys_ok (ctx_fileEdges ctx) \<Longrightarrow> ?thesis" by (simp add: resolveImports_def)
qed

subsection \<open>Cross-file call edges\<close>









end
